theory Spec2Isabelle
  imports Complex_Main
begin

section \<open>The hole normal-map generator of \<^verbatim>\<open>tools/generate_hole_normal.py\<close>\<close>

text \<open>
  The script has one function, \<^verbatim>\<open>generate_normal_map(size, strength, noise_scale)\<close>,
  which fills a square RGBA image pixel by pixel. The embedding follows the function line
  by line.

  Numbers: \<^verbatim>\<open>size\<close> and the pixel channels are Python integers (\<open>int\<close>; the loop
  counters, which \<^verbatim>\<open>range\<close> keeps non-negative, are \<open>nat\<close>). Python floats are
  read as real numbers, the type the specification gives to \<^verbatim>\<open>strength\<close> and
  \<^verbatim>\<open>noise_scale\<close>: \<open>sqrt\<close> and \<open>powr\<close> are the exact functions, so nothing here
  speaks about binary rounding, infinities or NaN.

  Errors: a Python exception is \<open>Inl\<close> of a \<open>py_error\<close>; the first one ends the call.

  Effects: the process-wide generator behind \<^verbatim>\<open>random.random()\<close> is the stream of
  the values it is going to return; a draw takes the head and leaves the rest. The image
  under construction is passed through the loops together with that stream.
\<close>

subsection \<open>Python primitives\<close>

datatype py_error = ZeroDivisionError | ValueError

definition bind_res :: "py_error + 'a \<Rightarrow> ('a \<Rightarrow> py_error + 'b) \<Rightarrow> py_error + 'b" where
  "bind_res m f = (case m of Inl e \<Rightarrow> Inl e | Inr v \<Rightarrow> f v)"

text \<open>Float division \<^verbatim>\<open>a / b\<close> raises on a zero divisor.\<close>

definition fdiv :: "real \<Rightarrow> real \<Rightarrow> py_error + real" where
  "fdiv a b = (if b = 0 then Inl ZeroDivisionError else Inr (a / b))"

text \<open>\<^verbatim>\<open>math.sqrt\<close> raises ValueError on a negative argument.\<close>

definition math_sqrt :: "real \<Rightarrow> py_error + real" where
  "math_sqrt a = (if a < 0 then Inl ValueError else Inr (sqrt a))"

text \<open>
  \<^verbatim>\<open>math.pow(a, b)\<close>, for the exponents the script uses (\<open>b\<close> positive and not an
  integer: \<open>p = 1.5\<close>): ValueError on a negative base, \<open>a\<close> to the power \<open>b\<close>
  otherwise, with \<open>math.pow(0.0, b) = 0.0\<close>.
\<close>

definition math_pow :: "real \<Rightarrow> real \<Rightarrow> py_error + real" where
  "math_pow a b = (if a < 0 then Inl ValueError else Inr (a powr b))"

text \<open>\<^verbatim>\<open>int(a)\<close> on a float drops the fractional part (rounds toward zero).\<close>

definition py_int :: "real \<Rightarrow> int" where
  "py_int a = (if 0 \<le> a then \<lfloor>a\<rfloor> else \<lceil>a\<rceil>)"

text \<open>
  \<^verbatim>\<open>for i in range(n): body\<close> over a state, stopping at the first exception.
\<close>

fun for_range :: "nat list \<Rightarrow> (nat \<Rightarrow> 's \<Rightarrow> py_error + 's) \<Rightarrow> 's \<Rightarrow> py_error + 's" where
  "for_range [] body s = Inr s"
| "for_range (i # rest) body s =
     (case body i s of Inl e \<Rightarrow> Inl e | Inr s' \<Rightarrow> for_range rest body s')"

subsection \<open>The random source\<close>

type_synonym rng = "nat \<Rightarrow> real"

text \<open>\<^verbatim>\<open>random.random()\<close>: the next value, and the generator after the draw.\<close>

definition random_random :: "rng \<Rightarrow> real \<times> rng" where
  "random_random g = (g 0, \<lambda>i. g (Suc i))"

text \<open>The library promises a value in \<open>[0, 1)\<close> at every draw.\<close>

definition unit_draws :: "rng \<Rightarrow> bool" where
  "unit_draws g = (\<forall>i. 0 \<le> g i \<and> g i < 1)"

definition zero_draws :: rng where
  "zero_draws = (\<lambda>i. 0)"

definition quarter_draws :: rng where
  "quarter_draws = (\<lambda>i. 1 / 4)"

subsection \<open>Images\<close>

type_synonym rgba = "int \<times> int \<times> int \<times> int"

type_synonym pixmap = "nat \<times> nat \<Rightarrow> rgba"

record image =
  width :: int
  height :: int
  pixels :: pixmap

text \<open>
  \<^verbatim>\<open>Image.new('RGBA', (w, h))\<close>: Pillow refuses a negative dimension with ValueError
  and otherwise gives an image whose pixels are all \<open>(0, 0, 0, 0)\<close>.
\<close>

definition Image_new :: "int \<Rightarrow> int \<Rightarrow> py_error + image" where
  "Image_new w h =
     (if w < 0 \<or> h < 0 then Inl ValueError
      else Inr \<lparr>width = w, height = h, pixels = (\<lambda>xy. (0, 0, 0, 0))\<rparr>)"

subsection \<open>The per-pixel computation\<close>

type_synonym vec3 = "real \<times> real \<times> real"

text \<open>\<^verbatim>\<open>cx = (w - 1) / 2.0\<close> and \<^verbatim>\<open>radius = min(cx, cy) * 0.95\<close>.\<close>

definition center :: "int \<Rightarrow> real" where
  "center w = real_of_int (w - 1) / 2"

definition hole_radius :: "real \<Rightarrow> real \<Rightarrow> real" where
  "hole_radius cx cy = min cx cy * 0.95"

text \<open>
  \<^verbatim>\<open>dx = (x - cx) / radius; dy = (y - cy) / radius; dist2 = dx*dx + dy*dy\<close>
\<close>

definition pixel_coords :: "real \<Rightarrow> real \<Rightarrow> real \<Rightarrow> nat \<Rightarrow> nat \<Rightarrow> py_error + (real \<times> real \<times> real)" where
  "pixel_coords cx cy radius x y =
     bind_res (fdiv (real x - cx) radius) (\<lambda>dx.
     bind_res (fdiv (real y - cy) radius) (\<lambda>dy.
     Inr (dx, dy, dx * dx + dy * dy)))"

text \<open>\<^verbatim>\<open>k = max(0.0, min(1.0, strength))\<close>\<close>

definition clamp_strength :: "real \<Rightarrow> real" where
  "clamp_strength strength = max 0 (min 1 strength)"

text \<open>\<^verbatim>\<open>p = 1.5; inner = max(0.0, 1.0 - math.pow(dist2, p) * k)\<close>\<close>

definition groove_inner :: "real \<Rightarrow> real \<Rightarrow> py_error + real" where
  "groove_inner dist2 strength =
     (let p = 1.5; k = clamp_strength strength in
      bind_res (math_pow dist2 p) (\<lambda>pw. Inr (max 0 (1 - pw * k))))"

text \<open>\<^verbatim>\<open>dz = math.sqrt(inner)\<close>\<close>

definition groove_dz :: "real \<Rightarrow> real \<Rightarrow> py_error + real" where
  "groove_dz dist2 strength = bind_res (groove_inner dist2 strength) math_sqrt"

text \<open>\<^verbatim>\<open>vx = dx * k; vy = dy * k; vz = dz\<close>, the vector before its normalisation.\<close>

definition raw_vector :: "real \<Rightarrow> real \<Rightarrow> real \<Rightarrow> real \<Rightarrow> py_error + vec3" where
  "raw_vector dx dy dist2 strength =
     (let k = clamp_strength strength in
      bind_res (groove_dz dist2 strength) (\<lambda>dz.
      Inr (dx * k, dy * k, dz)))"

definition vec_len :: "vec3 \<Rightarrow> real" where
  "vec_len v = (case v of (vx, vy, vz) \<Rightarrow> sqrt (vx * vx + vy * vy + vz * vz))"

text \<open>
  The guarded normalisation, written out twice in the script (for \<open>v\<close> with \<open>vlen\<close>, for
  \<open>n\<close> with \<open>nlen\<close>):
  \<^verbatim>\<open>vlen = math.sqrt(vx*vx + vy*vy + vz*vz)
  if vlen > 1e-6: vx /= vlen; vy /= vlen; vz /= vlen\<close>
  The guard keeps the divisor away from zero, so these divisions cannot raise.
\<close>

definition normalize3 :: "vec3 \<Rightarrow> py_error + vec3" where
  "normalize3 v =
     (case v of (vx, vy, vz) \<Rightarrow>
        bind_res (math_sqrt (vx * vx + vy * vy + vz * vz)) (\<lambda>vlen.
        if vlen > 1 / 1000000 then Inr (vx / vlen, vy / vlen, vz / vlen)
        else Inr (vx, vy, vz)))"

text \<open>
  The vector before the noise: the \<^verbatim>\<open>if dist2 <= 1.0: ... else: vx, vy, vz = 0.0, 0.0, 1.0\<close>
  of the script.
\<close>

definition surface_vector :: "real \<Rightarrow> real \<Rightarrow> real \<Rightarrow> real \<Rightarrow> py_error + vec3" where
  "surface_vector dx dy dist2 strength =
     (if dist2 \<le> 1 then bind_res (raw_vector dx dy dist2 strength) normalize3
      else Inr (0, 0, 1))"

text \<open>
  \<^verbatim>\<open>nx = vx + (random.random() - 0.5) * noise_scale
  ny = vy + (random.random() - 0.5) * noise_scale
  nz = vz\<close>
  with \<open>u1\<close> and \<open>u2\<close> the two values drawn.
\<close>

definition noise_of :: "real \<Rightarrow> real \<Rightarrow> real" where
  "noise_of u noise_scale = (u - 0.5) * noise_scale"

definition add_noise :: "vec3 \<Rightarrow> real \<Rightarrow> real \<Rightarrow> real \<Rightarrow> vec3" where
  "add_noise v u1 u2 noise_scale =
     (case v of (vx, vy, vz) \<Rightarrow>
        (vx + noise_of u1 noise_scale, vy + noise_of u2 noise_scale, vz))"

text \<open>
  \<^verbatim>\<open>r = int((nx * 0.5 + 0.5) * 255)\<close>, the same for \<open>g\<close> and \<open>b\<close>, and \<open>a = 255\<close>.
\<close>

definition encode_channel :: "real \<Rightarrow> int" where
  "encode_channel c = py_int ((c * 0.5 + 0.5) * 255)"

definition encode_rgba :: "vec3 \<Rightarrow> rgba" where
  "encode_rgba n =
     (case n of (nx, ny, nz) \<Rightarrow> (encode_channel nx, encode_channel ny, encode_channel nz, 255))"

text \<open>
  One pass through the body of the inner loop, at column \<open>x\<close> of row \<open>y\<close>, ending with
  \<^verbatim>\<open>px[x, y] = (r, g, b, a)\<close>.
\<close>

definition pixel_step ::
  "real \<Rightarrow> real \<Rightarrow> real \<Rightarrow> real \<Rightarrow> real \<Rightarrow> nat \<Rightarrow> nat \<Rightarrow> pixmap \<times> rng \<Rightarrow> py_error + (pixmap \<times> rng)" where
  "pixel_step cx cy radius strength noise_scale y x s =
     (case s of (px, g) \<Rightarrow>
        bind_res (pixel_coords cx cy radius x y) (\<lambda>(dx, dy, dist2).
        bind_res (surface_vector dx dy dist2 strength) (\<lambda>v.
        (case random_random g of (u1, g1) \<Rightarrow>
        (case random_random g1 of (u2, g2) \<Rightarrow>
        bind_res (normalize3 (add_noise v u1 u2 noise_scale)) (\<lambda>n.
        Inr (px((x, y) := encode_rgba n), g2)))))))"

subsection \<open>The generator\<close>

text \<open>
  The parameter \<^verbatim>\<open>size\<close> is written \<open>sz\<close>. The script's \<^verbatim>\<open>px = img.load()\<close> is
  the pixel store of \<open>img\<close> itself, so the pixels written through \<open>px\<close> are those
  of the image returned.
\<close>

definition generate_normal_map :: "int \<Rightarrow> real \<Rightarrow> real \<Rightarrow> rng \<Rightarrow> py_error + (image \<times> rng)" where
  "generate_normal_map sz strength noise_scale g =
     (let w = sz; h = sz;
          cx = center w;
          cy = center h;
          radius = hole_radius cx cy
      in bind_res (Image_new w h) (\<lambda>img.
         bind_res (for_range [0..<nat h] (\<lambda>y.
                     for_range [0..<nat w] (pixel_step cx cy radius strength noise_scale y))
                   (pixels img, g)) (\<lambda>(px, g').
         Inr (img\<lparr>pixels := px\<rparr>, g'))))"

subsection \<open>Observers used to state the properties\<close>

text \<open>
  What a reader of the returned image sees at \<open>(x, y)\<close>: nothing when the call raised or
  the position is outside the image.
\<close>

definition pixel_at :: "py_error + (image \<times> rng) \<Rightarrow> nat \<Rightarrow> nat \<Rightarrow> rgba option" where
  "pixel_at res x y =
     (case res of
        Inl e \<Rightarrow> None
      | Inr (img, g) \<Rightarrow>
          if int x < width img \<and> int y < height img then Some (pixels img (x, y)) else None)"

definition canvas_of :: "py_error + (image \<times> rng) \<Rightarrow> py_error + image" where
  "canvas_of res = (case res of Inl e \<Rightarrow> Inl e | Inr (img, g) \<Rightarrow> Inr img)"

text \<open>The intermediate values of pixel \<open>(x, y)\<close> of a canvas of the given size.\<close>

definition coords_at :: "int \<Rightarrow> nat \<Rightarrow> nat \<Rightarrow> py_error + (real \<times> real \<times> real)" where
  "coords_at sz x y =
     pixel_coords (center sz) (center sz) (hole_radius (center sz) (center sz)) x y"

definition pre_noise_at :: "int \<Rightarrow> real \<Rightarrow> nat \<Rightarrow> nat \<Rightarrow> py_error + vec3" where
  "pre_noise_at sz strength x y =
     bind_res (coords_at sz x y) (\<lambda>(dx, dy, dist2). surface_vector dx dy dist2 strength)"

definition final_normal_at :: "int \<Rightarrow> real \<Rightarrow> real \<Rightarrow> nat \<Rightarrow> nat \<Rightarrow> real \<Rightarrow> real \<Rightarrow> py_error + vec3" where
  "final_normal_at sz strength noise_scale x y u1 u2 =
     bind_res (pre_noise_at sz strength x y) (\<lambda>v. normalize3 (add_noise v u1 u2 noise_scale))"

text \<open>The channels of pixel \<open>(x, y)\<close> when its two draws are \<open>u1\<close> and \<open>u2\<close>.\<close>

definition pixel_value :: "int \<Rightarrow> real \<Rightarrow> real \<Rightarrow> nat \<Rightarrow> nat \<Rightarrow> real \<Rightarrow> real \<Rightarrow> py_error + rgba" where
  "pixel_value sz strength noise_scale x y u1 u2 =
     bind_res (final_normal_at sz strength noise_scale x y u1 u2) (\<lambda>n. Inr (encode_rgba n))"

text \<open>The two draws that pixel \<open>(x, y)\<close> receives: the loops run row by row.\<close>

definition draw_index :: "int \<Rightarrow> nat \<Rightarrow> nat \<Rightarrow> nat" where
  "draw_index sz x y = 2 * (y * nat sz + x)"

text \<open>
  The decoding the specification names, \<^verbatim>\<open>v = (channel/255)*2 - 1\<close>, and the rounding
  encoder its step 8 describes.
\<close>

definition decode_channel :: "int \<Rightarrow> real" where
  "decode_channel c = (real_of_int c / 255) * 2 - 1"

definition decode_rgb :: "rgba \<Rightarrow> vec3" where
  "decode_rgb c = (case c of (r, g, b, a) \<Rightarrow> (decode_channel r, decode_channel g, decode_channel b))"

definition spec_encode_rgba :: "vec3 \<Rightarrow> rgba" where
  "spec_encode_rgba n =
     (case n of (nx, ny, nz) \<Rightarrow>
        (round ((nx * 0.5 + 0.5) * 255), round ((ny * 0.5 + 0.5) * 255),
         round ((nz * 0.5 + 0.5) * 255), 255))"

text \<open>
  A test point: the normal of pixel \<open>(10, 9)\<close> of the 13 by 13 canvas at the default
  strength \<open>0.6\<close> (offsets \<open>(4, 3)\<close> from the centre, radius \<open>5.7\<close>).
\<close>

definition sample_normal :: vec3 where
  "sample_normal =
     (8 / 19 / sqrt (53831 / 61731), 6 / 19 / sqrt (53831 / 61731),
      sqrt (36731 / 61731) / sqrt (53831 / 61731))"

section \<open>Basic facts about the embedding\<close>

subsection \<open>The primitives never raise on the arguments the script gives them\<close>

lemma bind_res_Inl [simp]: "bind_res (Inl e) f = Inl e"
  by (simp add: bind_res_def)

lemma bind_res_Inr [simp]: "bind_res (Inr v) f = f v"
  by (simp add: bind_res_def)

lemma bind_res_eq_Inr:
  "bind_res m f = Inr r \<longleftrightarrow> (\<exists>v. m = Inr v \<and> f v = Inr r)"
  by (cases m) simp_all

lemma sum_squares3_nonneg: "0 \<le> a * a + b * b + c * (c::real)"
  by (simp add: add_nonneg_nonneg)

lemma math_sqrt_nonneg: "0 \<le> a \<Longrightarrow> math_sqrt a = Inr (sqrt a)"
  by (simp add: math_sqrt_def)

lemma math_pow_nonneg: "0 \<le> a \<Longrightarrow> math_pow a b = Inr (a powr b)"
  by (simp add: math_pow_def)

lemma normalize3_eq:
  "normalize3 v =
     Inr (if vec_len v > 1 / 1000000
          then (fst v / vec_len v, fst (snd v) / vec_len v, snd (snd v) / vec_len v)
          else v)"
  by (cases v) (simp add: normalize3_def vec_len_def math_sqrt_nonneg sum_squares3_nonneg)

lemma fdiv_nonzero: "b \<noteq> 0 \<Longrightarrow> fdiv a b = Inr (a / b)"
  by (simp add: fdiv_def)

lemma pixel_coords_ok:
  "radius \<noteq> 0 \<Longrightarrow>
   pixel_coords cx cy radius x y =
     Inr ((real x - cx) / radius, (real y - cy) / radius,
          (real x - cx) / radius * ((real x - cx) / radius)
          + (real y - cy) / radius * ((real y - cy) / radius))"
  by (simp add: pixel_coords_def fdiv_nonzero)

lemma pixel_coords_zero_radius:
  "pixel_coords cx cy 0 x y = Inl ZeroDivisionError"
  by (simp add: pixel_coords_def fdiv_def)

lemma pixel_coords_dist2_nonneg:
  "pixel_coords cx cy radius x y = Inr (dx, dy, dist2) \<Longrightarrow> dist2 = dx * dx + dy * dy \<and> 0 \<le> dist2"
  by (auto simp: pixel_coords_def bind_res_eq_Inr)

lemma clamp_strength_range: "0 \<le> clamp_strength s \<and> clamp_strength s \<le> 1"
  by (simp add: clamp_strength_def)

lemma groove_inner_eq:
  "0 \<le> dist2 \<Longrightarrow>
   groove_inner dist2 strength = Inr (max 0 (1 - dist2 powr 1.5 * clamp_strength strength))"
  by (simp add: groove_inner_def math_pow_nonneg)

lemma groove_dz_eq:
  "0 \<le> dist2 \<Longrightarrow>
   groove_dz dist2 strength = Inr (sqrt (max 0 (1 - dist2 powr 1.5 * clamp_strength strength)))"
  by (simp add: groove_dz_def groove_inner_eq math_sqrt_nonneg)

lemma raw_vector_eq:
  "0 \<le> dist2 \<Longrightarrow>
   raw_vector dx dy dist2 strength =
     Inr (dx * clamp_strength strength, dy * clamp_strength strength,
          sqrt (max 0 (1 - dist2 powr 1.5 * clamp_strength strength)))"
  by (simp add: raw_vector_def groove_dz_eq Let_def)

lemma surface_vector_total:
  "0 \<le> dist2 \<Longrightarrow> \<exists>v. surface_vector dx dy dist2 strength = Inr v"
  by (simp add: surface_vector_def raw_vector_eq normalize3_eq)

lemma pixel_step_eq:
  "pixel_step (center sz) (center sz) (hole_radius (center sz) (center sz)) strength ns y x (px, g) =
     bind_res (pixel_value sz strength ns x y (g 0) (g 1))
       (\<lambda>c. Inr (px((x, y) := c), \<lambda>i. g (i + 2)))"
proof (cases "coords_at sz x y")
  case (Inl e)
  then show ?thesis
    by (simp add: pixel_step_def pixel_value_def final_normal_at_def pre_noise_at_def coords_at_def)
next
  case (Inr t)
  obtain dx dy dist2 where t: "t = (dx, dy, dist2)" by (cases t)
  show ?thesis
  proof (cases "surface_vector dx dy dist2 strength")
    case (Inl e)
    with Inr t show ?thesis
      by (simp add: pixel_step_def pixel_value_def final_normal_at_def pre_noise_at_def coords_at_def)
  next
    case v: (Inr v)
    with Inr t show ?thesis
      by (simp add: pixel_step_def pixel_value_def final_normal_at_def pre_noise_at_def
          coords_at_def random_random_def normalize3_eq)
  qed
qed

lemma for_range_total:
  "(\<And>i s. i \<in> set xs \<Longrightarrow> \<exists>s'. body i s = Inr s') \<Longrightarrow> \<exists>s'. for_range xs body s = Inr s'"
proof (induction xs arbitrary: s)
  case Nil
  then show ?case by simp
next
  case (Cons i xs)
  obtain s1 where s1: "body i s = Inr s1"
    using Cons.prems [of i s] by auto
  have "\<exists>s'. for_range xs body s1 = Inr s'"
    by (rule Cons.IH) (simp add: Cons.prems)
  with s1 show ?case by simp
qed

lemma row_loop:
  assumes body: "\<And>x px g. body x (px, g) =
      bind_res (F x (g 0) (g 1)) (\<lambda>c. Inr (px((x, y) := c), \<lambda>i. g (i + 2)))"
  shows "distinct xs \<Longrightarrow> for_range xs body (px, g) = Inr (px', g') \<Longrightarrow>
         g' = (\<lambda>i. g (i + 2 * length xs))
         \<and> (\<forall>j<length xs. F (xs ! j) (g (2 * j)) (g (2 * j + 1)) = Inr (px' (xs ! j, y)))
         \<and> (\<forall>p. p \<notin> (\<lambda>x. (x, y)) ` set xs \<longrightarrow> px' p = px p)"
proof (induction xs arbitrary: px g)
  case Nil
  then show ?case by simp
next
  case (Cons x xs)
  from Cons.prems(2) obtain c where c: "F x (g 0) (g 1) = Inr c"
    and rest: "for_range xs body (px((x, y) := c), \<lambda>i. g (i + 2)) = Inr (px', g')"
    by (cases "F x (g 0) (g 1)") (simp_all add: body)
  from Cons.prems(1) have dist: "distinct xs" and notin: "x \<notin> set xs" by simp_all
  note IH = Cons.IH [OF dist rest]
  have g': "g' = (\<lambda>i. g (i + 2 * length (x # xs)))"
    using IH by (simp add: add.assoc)
  have keep: "\<forall>p. p \<notin> (\<lambda>x. (x, y)) ` set (x # xs) \<longrightarrow> px' p = px p"
    using IH by auto
  have "(x, y) \<notin> (\<lambda>x. (x, y)) ` set xs"
    using notin by auto
  with IH have "px' (x, y) = (px((x, y) := c)) (x, y)"
    by blast
  then have here: "px' (x, y) = c"
    by simp
  have vals: "\<forall>j<length (x # xs). F ((x # xs) ! j) (g (2 * j)) (g (2 * j + 1)) = Inr (px' ((x # xs) ! j, y))"
  proof (intro allI impI)
    fix j assume j: "j < length (x # xs)"
    show "F ((x # xs) ! j) (g (2 * j)) (g (2 * j + 1)) = Inr (px' ((x # xs) ! j, y))"
    proof (cases j)
      case 0
      then show ?thesis using c here by simp
    next
      case (Suc j')
      with j have "j' < length xs" by simp
      with IH have "F (xs ! j') (g (2 * j' + 2)) (g (2 * j' + 1 + 2)) = Inr (px' (xs ! j', y))"
        by blast
      with Suc show ?thesis by (simp add: add.commute)
    qed
  qed
  from g' vals keep show ?case by blast
qed

lemma rows_loop:
  assumes R: "\<And>y px g px' g'. R y (px, g) = Inr (px', g') \<Longrightarrow>
      g' = (\<lambda>i. g (i + 2 * w))
      \<and> (\<forall>x<w. G x y (g (2 * x)) (g (2 * x + 1)) = Inr (px' (x, y)))
      \<and> (\<forall>p. snd p \<noteq> y \<or> w \<le> fst p \<longrightarrow> px' p = px p)"
  shows "distinct ys \<Longrightarrow> for_range ys R (px, g) = Inr (px', g') \<Longrightarrow>
         g' = (\<lambda>i. g (i + 2 * w * length ys))
         \<and> (\<forall>j<length ys. \<forall>x<w.
               G x (ys ! j) (g (2 * (j * w + x))) (g (2 * (j * w + x) + 1)) = Inr (px' (x, ys ! j)))
         \<and> (\<forall>p. snd p \<notin> set ys \<or> w \<le> fst p \<longrightarrow> px' p = px p)"
proof (induction ys arbitrary: px g)
  case Nil
  then show ?case by simp
next
  case (Cons y ys)
  from Cons.prems(2) obtain px1 g1 where row: "R y (px, g) = Inr (px1, g1)"
    and rest: "for_range ys R (px1, g1) = Inr (px', g')"
    by (cases "R y (px, g)") auto
  from Cons.prems(1) have dist: "distinct ys" and notin: "y \<notin> set ys" by simp_all
  note IH = Cons.IH [OF dist rest]
  note Ry = R [OF row]
  have g1: "g1 = (\<lambda>i. g (i + 2 * w))" using Ry by blast
  have g': "g' = (\<lambda>i. g (i + 2 * w * length (y # ys)))"
  proof -
    have "g' = (\<lambda>i. g1 (i + 2 * w * length ys))" using IH by blast
    then show ?thesis by (simp add: g1 algebra_simps)
  qed
  have keep: "\<forall>p. snd p \<notin> set (y # ys) \<or> w \<le> fst p \<longrightarrow> px' p = px p"
  proof (intro allI impI)
    fix p assume p: "snd p \<notin> set (y # ys) \<or> w \<le> fst p"
    then have p1: "snd p \<notin> set ys \<or> w \<le> fst p" and p2: "snd p \<noteq> y \<or> w \<le> fst p"
      by auto
    have "px' p = px1 p" using IH p1 by blast
    moreover have "px1 p = px p" using Ry p2 by blast
    ultimately show "px' p = px p" by simp
  qed
  have vals: "\<forall>j<length (y # ys). \<forall>x<w.
      G x ((y # ys) ! j) (g (2 * (j * w + x))) (g (2 * (j * w + x) + 1)) = Inr (px' (x, (y # ys) ! j))"
  proof (intro allI impI)
    fix j x assume j: "j < length (y # ys)" and x: "x < w"
    show "G x ((y # ys) ! j) (g (2 * (j * w + x))) (g (2 * (j * w + x) + 1)) = Inr (px' (x, (y # ys) ! j))"
    proof (cases j)
      case 0
      have "snd (x, y) \<notin> set ys \<or> w \<le> fst (x, y)" using notin by simp
      with IH have "px' (x, y) = px1 (x, y)" by blast
      moreover have "G x y (g (2 * x)) (g (2 * x + 1)) = Inr (px1 (x, y))" using Ry x by blast
      ultimately show ?thesis using 0 by simp
    next
      case (Suc j')
      with j have "j' < length ys" by simp
      with IH x have "G x (ys ! j') (g1 (2 * (j' * w + x))) (g1 (2 * (j' * w + x) + 1)) = Inr (px' (x, ys ! j'))"
        by blast
      moreover have "2 * (j' * w + x) + 2 * w = 2 * (Suc j' * w + x)" by (simp add: algebra_simps)
      moreover have "2 * (j' * w + x) + 1 + 2 * w = 2 * (Suc j' * w + x) + 1" by (simp add: algebra_simps)
      ultimately show ?thesis using Suc by (simp add: g1 algebra_simps)
    qed
  qed
  from g' vals keep show ?case by blast
qed

lemma row_of_generator:
  assumes "for_range [0..<w]
             (pixel_step (center sz) (center sz) (hole_radius (center sz) (center sz)) strength ns y)
             (px, g) = Inr (px', g')"
  shows "g' = (\<lambda>i. g (i + 2 * w))
      \<and> (\<forall>x<w. pixel_value sz strength ns x y (g (2 * x)) (g (2 * x + 1)) = Inr (px' (x, y)))
      \<and> (\<forall>p. snd p \<noteq> y \<or> w \<le> fst p \<longrightarrow> px' p = px p)"
proof -
  have d: "distinct [0..<w]" by simp
  note r = row_loop [where F = "\<lambda>x. pixel_value sz strength ns x y", OF pixel_step_eq d assms]
  have "\<forall>x<w. pixel_value sz strength ns x y (g (2 * x)) (g (2 * x + 1)) = Inr (px' (x, y))"
  proof (intro allI impI)
    fix x assume "x < w"
    with r have "pixel_value sz strength ns ([0..<w] ! x) y (g (2 * x)) (g (2 * x + 1))
        = Inr (px' ([0..<w] ! x, y))" by simp
    with \<open>x < w\<close> show "pixel_value sz strength ns x y (g (2 * x)) (g (2 * x + 1)) = Inr (px' (x, y))"
      by simp
  qed
  moreover have "\<forall>p. snd p \<noteq> y \<or> w \<le> fst p \<longrightarrow> px' p = px p"
  proof (intro allI impI)
    fix p assume "snd p \<noteq> y \<or> w \<le> fst p"
    then have "p \<notin> (\<lambda>x. (x, y)) ` set [0..<w]" by auto
    with r show "px' p = px p" by blast
  qed
  moreover have "g' = (\<lambda>i. g (i + 2 * w))" using r by simp
  ultimately show ?thesis by blast
qed

lemma generate_pixels:
  assumes "generate_normal_map sz strength ns g = Inr (img, g')"
  shows "0 \<le> sz \<and> width img = sz \<and> height img = sz
      \<and> g' = (\<lambda>i. g (i + 2 * nat sz * nat sz))
      \<and> (\<forall>y<nat sz. \<forall>x<nat sz.
            pixel_value sz strength ns x y (g (draw_index sz x y)) (g (draw_index sz x y + 1))
              = Inr (pixels img (x, y)))
      \<and> (\<forall>p. nat sz \<le> snd p \<or> nat sz \<le> fst p \<longrightarrow> pixels img p = (0, 0, 0, 0))"
proof -
  let ?R = "\<lambda>y. for_range [0..<nat sz]
      (pixel_step (center sz) (center sz) (hole_radius (center sz) (center sz)) strength ns y)"
  let ?blank = "(\<lambda>xy. (0, 0, 0, 0)) :: pixmap"
  from assms have nonneg: "0 \<le> sz"
    by (auto simp: generate_normal_map_def Image_new_def split: if_splits)
  with assms obtain px where loop: "for_range [0..<nat sz] ?R (?blank, g) = Inr (px, g')"
    and img: "img = \<lparr>width = sz, height = sz, pixels = px\<rparr>"
    by (auto simp: generate_normal_map_def Image_new_def bind_res_eq_Inr Let_def)
  have d: "distinct [0..<nat sz]" by simp
  note r = rows_loop [where R = ?R and w = "nat sz" and G = "pixel_value sz strength ns",
      OF row_of_generator d loop]
  have vals: "\<forall>y<nat sz. \<forall>x<nat sz.
      pixel_value sz strength ns x y (g (draw_index sz x y)) (g (draw_index sz x y + 1)) = Inr (px (x, y))"
  proof (intro allI impI)
    fix y x assume y: "y < nat sz" and x: "x < nat sz"
    with r have "pixel_value sz strength ns x ([0..<nat sz] ! y) (g (2 * (y * nat sz + x)))
        (g (2 * (y * nat sz + x) + 1)) = Inr (px (x, [0..<nat sz] ! y))" by simp
    with y show "pixel_value sz strength ns x y (g (draw_index sz x y)) (g (draw_index sz x y + 1))
        = Inr (px (x, y))" by (simp add: draw_index_def)
  qed
  have keep: "\<forall>p. nat sz \<le> snd p \<or> nat sz \<le> fst p \<longrightarrow> px p = (0, 0, 0, 0)"
  proof (intro allI impI)
    fix p :: "nat \<times> nat" assume "nat sz \<le> snd p \<or> nat sz \<le> fst p"
    then have "snd p \<notin> set [0..<nat sz] \<or> nat sz \<le> fst p" by auto
    with r have "px p = ?blank p" by blast
    then show "px p = (0, 0, 0, 0)" by simp
  qed
  have "g' = (\<lambda>i. g (i + 2 * nat sz * nat sz))" using r by simp
  with nonneg img vals keep show ?thesis by simp
qed

lemma hole_radius_nonzero: "sz \<noteq> 1 \<Longrightarrow> hole_radius (center sz) (center sz) \<noteq> 0"
  by (simp add: hole_radius_def center_def)

lemma coords_at_ok:
  "sz \<noteq> 1 \<Longrightarrow> \<exists>dx dy. coords_at sz x y = Inr (dx, dy, dx * dx + dy * dy)"
  by (simp add: coords_at_def pixel_coords_ok hole_radius_nonzero)

lemma pre_noise_total: "sz \<noteq> 1 \<Longrightarrow> \<exists>v. pre_noise_at sz strength x y = Inr v"
proof -
  assume "sz \<noteq> 1"
  then obtain dx dy where "coords_at sz x y = Inr (dx, dy, dx * dx + dy * dy)"
    using coords_at_ok by blast
  moreover have "\<exists>v. surface_vector dx dy (dx * dx + dy * dy) strength = Inr v"
    by (rule surface_vector_total) simp
  ultimately show ?thesis by (simp add: pre_noise_at_def)
qed

lemma pixel_value_total:
  "sz \<noteq> 1 \<Longrightarrow> \<exists>c. pixel_value sz strength ns x y u1 u2 = Inr c"
proof -
  assume "sz \<noteq> 1"
  then obtain v where "pre_noise_at sz strength x y = Inr v"
    using pre_noise_total by blast
  moreover obtain n where "normalize3 (add_noise v u1 u2 ns) = Inr n"
    by (simp add: normalize3_eq)
  ultimately have "pixel_value sz strength ns x y u1 u2 = Inr (encode_rgba n)"
    by (simp add: pixel_value_def final_normal_at_def)
  then show ?thesis by blast
qed

lemma pixel_value_Inr_size: "pixel_value sz strength ns x y u1 u2 = Inr c \<Longrightarrow> sz \<noteq> 1"
  by (auto simp: pixel_value_def final_normal_at_def pre_noise_at_def coords_at_def
      hole_radius_def center_def pixel_coords_zero_radius)

lemma generate_total:
  assumes "0 \<le> sz" "sz \<noteq> 1"
  shows "\<exists>img g'. generate_normal_map sz strength ns g = Inr (img, g')"
proof -
  let ?step = "pixel_step (center sz) (center sz) (hole_radius (center sz) (center sz)) strength ns"
  have step: "\<exists>s'. ?step y x s = Inr s'" for y x s
  proof -
    obtain px g0 where s: "s = (px, g0)" by (cases s)
    obtain c where "pixel_value sz strength ns x y (g0 0) (g0 1) = Inr c"
      using pixel_value_total [OF assms(2)] by blast
    then show ?thesis by (simp add: s pixel_step_eq)
  qed
  have row: "\<exists>s'. for_range [0..<nat sz] (?step y) s = Inr s'" for y s
    by (rule for_range_total) (rule step)
  have "\<exists>s'. for_range [0..<nat sz] (\<lambda>y. for_range [0..<nat sz] (?step y)) s = Inr s'" for s
    by (rule for_range_total) (rule row)
  then obtain px g' where
    "for_range [0..<nat sz] (\<lambda>y. for_range [0..<nat sz] (?step y)) (\<lambda>xy. (0, 0, 0, 0), g) = Inr (px, g')"
    by (metis surj_pair)
  with assms(1) show ?thesis
    by (simp add: generate_normal_map_def Image_new_def Let_def)
qed

lemma pixel_at_generate_Some:
  assumes "pixel_at (generate_normal_map sz strength ns g) x y = Some c"
  shows "x < nat sz \<and> y < nat sz
      \<and> pixel_value sz strength ns x y (g (draw_index sz x y)) (g (draw_index sz x y + 1)) = Inr c"
proof -
  from assms obtain img g' where gen: "generate_normal_map sz strength ns g = Inr (img, g')"
    by (cases "generate_normal_map sz strength ns g") (auto simp: pixel_at_def)
  note p = generate_pixels [OF gen]
  from assms gen p have "int x < sz" "int y < sz" and c: "c = pixels img (x, y)"
    by (auto simp: pixel_at_def split: if_splits)
  then have xy: "x < nat sz" "y < nat sz" by linarith+
  from p xy have "pixel_value sz strength ns x y (g (draw_index sz x y))
      (g (draw_index sz x y + 1)) = Inr (pixels img (x, y))" by blast
  with xy c show ?thesis by simp
qed

lemma pixel_at_generate:
  assumes "x < nat sz" "y < nat sz"
    and "pixel_value sz strength ns x y (g (draw_index sz x y)) (g (draw_index sz x y + 1)) = Inr c"
  shows "pixel_at (generate_normal_map sz strength ns g) x y = Some c"
proof -
  have "sz \<noteq> 1" using assms(3) by (rule pixel_value_Inr_size)
  moreover have "0 \<le> sz" using assms(1) by simp
  ultimately obtain img g' where gen: "generate_normal_map sz strength ns g = Inr (img, g')"
    using generate_total by blast
  note p = generate_pixels [OF gen]
  from p assms(1,2) have "pixel_value sz strength ns x y (g (draw_index sz x y))
      (g (draw_index sz x y + 1)) = Inr (pixels img (x, y))" by blast
  with assms(3) have "pixels img (x, y) = c" by simp
  moreover have "int x < sz" "int y < sz" using assms(1,2) by linarith+
  ultimately show ?thesis using p gen by (simp add: pixel_at_def)
qed

lemma generate_clamp_cong:
  assumes "clamp_strength s1 = clamp_strength s2"
  shows "generate_normal_map sz s1 ns g = generate_normal_map sz s2 ns g"
proof -
  have "raw_vector dx dy d s1 = raw_vector dx dy d s2" for dx dy d
    by (simp add: raw_vector_def groove_dz_def groove_inner_def assms)
  then have "surface_vector dx dy d s1 = surface_vector dx dy d s2" for dx dy d
    by (simp add: surface_vector_def)
  then have "pixel_step cx cy r s1 ns = pixel_step cx cy r s2 ns" for cx cy r
    by (simp add: pixel_step_def fun_eq_iff)
  then show ?thesis
    by (simp add: generate_normal_map_def)
qed

subsection \<open>Normalised vectors and their encoding\<close>

lemma abs_le_vec_len:
  "\<bar>vx\<bar> \<le> vec_len (vx, vy, vz) \<and> \<bar>vy\<bar> \<le> vec_len (vx, vy, vz) \<and> \<bar>vz\<bar> \<le> vec_len (vx, vy, vz)"
proof -
  have "sqrt (vx * vx) \<le> sqrt (vx * vx + vy * vy + vz * vz)"
    by (rule real_sqrt_le_mono) (simp add: add_nonneg_nonneg)
  moreover have "sqrt (vy * vy) \<le> sqrt (vx * vx + vy * vy + vz * vz)"
    by (rule real_sqrt_le_mono) (simp add: add_nonneg_nonneg)
  moreover have "sqrt (vz * vz) \<le> sqrt (vx * vx + vy * vy + vz * vz)"
    by (rule real_sqrt_le_mono) (simp add: add_nonneg_nonneg)
  ultimately show ?thesis by (simp add: vec_len_def)
qed

lemma vec_len_nonneg: "0 \<le> vec_len v"
  by (cases v) (simp add: vec_len_def sum_squares3_nonneg)

lemma abs_div_le_one: "\<bar>a\<bar> \<le> l \<Longrightarrow> 0 < l \<Longrightarrow> \<bar>a / l\<bar> \<le> (1::real)"
  by (simp add: field_simps)

lemma normalize3_components:
  assumes "normalize3 v = Inr (nx, ny, nz)"
  shows "\<bar>nx\<bar> \<le> 1 \<and> \<bar>ny\<bar> \<le> 1 \<and> \<bar>nz\<bar> \<le> 1"
proof -
  obtain vx vy vz where v: "v = (vx, vy, vz)" by (cases v)
  note b = abs_le_vec_len [of vx vy vz]
  show ?thesis
  proof (cases "vec_len v > 1 / 1000000")
    case True
    then have pos: "0 < vec_len (vx, vy, vz)" by (simp add: v)
    from True assms have "nx = vx / vec_len (vx, vy, vz)" "ny = vy / vec_len (vx, vy, vz)"
      "nz = vz / vec_len (vx, vy, vz)"
      by (simp_all add: normalize3_eq v)
    with b pos show ?thesis by (simp add: abs_div_le_one)
  next
    case False
    with assms have "nx = vx" "ny = vy" "nz = vz" by (simp_all add: normalize3_eq v)
    moreover from False have "vec_len (vx, vy, vz) \<le> 1" by (simp add: v)
    ultimately show ?thesis using b by linarith
  qed
qed

lemma encode_channel_floor:
  "\<bar>c\<bar> \<le> 1 \<Longrightarrow> encode_channel c = \<lfloor>(c * 0.5 + 0.5) * 255\<rfloor>"
  by (simp add: encode_channel_def py_int_def abs_le_iff)

lemma encode_channel_range:
  assumes "\<bar>c\<bar> \<le> 1"
  shows "0 \<le> encode_channel c \<and> encode_channel c \<le> 255"
proof -
  from assms have "0 \<le> (c * 0.5 + 0.5) * 255" "(c * 0.5 + 0.5) * 255 \<le> 255"
    by (simp_all add: abs_le_iff)
  then have "0 \<le> \<lfloor>(c * 0.5 + 0.5) * 255\<rfloor>" "\<lfloor>(c * 0.5 + 0.5) * 255\<rfloor> \<le> 255"
    by (simp_all add: floor_le_iff le_floor_iff)
  with assms show ?thesis by (simp add: encode_channel_floor)
qed

lemma pixel_value_Inr:
  assumes "pixel_value sz strength ns x y u1 u2 = Inr c"
  shows "\<exists>v n. pre_noise_at sz strength x y = Inr v
           \<and> normalize3 (add_noise v u1 u2 ns) = Inr n
           \<and> final_normal_at sz strength ns x y u1 u2 = Inr n
           \<and> c = encode_rgba n"
  using assms by (auto simp: pixel_value_def final_normal_at_def bind_res_eq_Inr)

lemma decode_channel_range:
  "0 \<le> c \<Longrightarrow> c \<le> 255 \<Longrightarrow> - 1 \<le> decode_channel c \<and> decode_channel c \<le> 1"
  by (simp add: decode_channel_def)

lemma encode_flat: "encode_rgba (0, 0, 1) = (127, 127, 255, 255)"
  by (simp add: encode_rgba_def encode_channel_def py_int_def)

lemma normalize3_flat: "normalize3 (0, 0, 1) = Inr (0, 0, 1)"
  by (simp add: normalize3_def math_sqrt_def)

lemma add_noise_zero: "add_noise v u1 u2 0 = v"
  by (cases v) (simp add: add_noise_def noise_of_def)

lemma pixel_value_flat:
  "pre_noise_at sz strength x y = Inr (0, 0, 1) \<Longrightarrow>
   pixel_value sz strength 0 x y u1 u2 = Inr (127, 127, 255, 255)"
  by (simp add: pixel_value_def final_normal_at_def add_noise_zero normalize3_flat encode_flat)

lemma pre_noise_outside:
  "coords_at sz x y = Inr (dx, dy, dist2) \<Longrightarrow> 1 < dist2 \<Longrightarrow>
   pre_noise_at sz strength x y = Inr (0, 0, 1)"
  by (simp add: pre_noise_at_def surface_vector_def)

lemma coords_at_2_0_0: "coords_at 2 0 0 = Inr (- (20 / 19), - (20 / 19), 800 / 361)"
  by (simp add: coords_at_def pixel_coords_def fdiv_def center_def hole_radius_def)

lemma pixel_2_0_0:
  "pixel_at (generate_normal_map 2 strength 0 g) 0 0 = Some (127, 127, 255, 255)"
proof -
  have "pre_noise_at 2 strength 0 0 = Inr (0, 0, 1)"
    by (rule pre_noise_outside [OF coords_at_2_0_0]) simp
  then have "pixel_value 2 strength 0 0 0 (g (draw_index 2 0 0)) (g (draw_index 2 0 0 + 1))
      = Inr (127, 127, 255, 255)"
    by (rule pixel_value_flat)
  then show ?thesis
    by (rule pixel_at_generate [rotated 2]) simp_all
qed

lemma coords_zero_dist2:
  "coords_at sz x y = Inr (0, 0, dist2) \<Longrightarrow> dist2 = 0"
  by (auto simp: coords_at_def dest: pixel_coords_dist2_nonneg)

lemma coords_at_3_1_1: "coords_at 3 1 1 = Inr (0, 0, 0)"
  by (simp add: coords_at_def pixel_coords_def fdiv_def center_def hole_radius_def)

subsection \<open>The groove profile, the noise and the exceptional sizes\<close>

lemma powr_three_halves_le:
  assumes "0 \<le> d" "d \<le> (1::real)"
  shows "d powr 1.5 \<le> d"
proof -
  have "d powr 1.5 \<le> d powr 1"
    using assms by (intro powr_mono') simp_all
  with assms show ?thesis by simp
qed

lemma groove_len_bound:
  assumes d: "0 \<le> d" "d \<le> (1::real)" and k: "0 \<le> k" "k \<le> (1::real)"
  shows "max 0 (1 - d powr 1.5 * k) = 1 - d powr 1.5 * k"
    and "3 / 4 \<le> k * k * d + (1 - d powr 1.5 * k)"
proof -
  have p0: "0 \<le> d powr 1.5" by simp
  have p1: "d powr 1.5 \<le> d" using d by (rule powr_three_halves_le)
  note p = p0 p1
  have pk: "d powr 1.5 * k \<le> d * k"
    using p k by (simp add: mult_right_mono)
  have "d * k \<le> 1 * 1"
    using d k by (intro mult_mono) simp_all
  with pk show "max 0 (1 - d powr 1.5 * k) = 1 - d powr 1.5 * k"
    by simp
  have "0 \<le> (k - 1 / 2) * (k - 1 / 2)" by simp
  then have quarter: "k * (1 - k) \<le> 1 / 4" by (simp add: algebra_simps)
  have "0 \<le> k * (1 - k)" using k by simp
  then have "d * (k * (1 - k)) \<le> 1 * (k * (1 - k))"
    using d by (intro mult_right_mono) simp_all
  with quarter have "d * (k * (1 - k)) \<le> 1 / 4" by simp
  then have "3 / 4 \<le> k * k * d + (1 - d * k)" by (simp add: algebra_simps)
  with pk show "3 / 4 \<le> k * k * d + (1 - d powr 1.5 * k)" by simp
qed

lemma raw_vector_len:
  assumes "dist2 = dx * dx + dy * dy" "dist2 \<le> 1"
  shows "raw_vector dx dy dist2 strength =
           Inr (dx * clamp_strength strength, dy * clamp_strength strength,
                sqrt (max 0 (1 - dist2 powr 1.5 * clamp_strength strength)))"
    and "(vec_len (dx * clamp_strength strength, dy * clamp_strength strength,
                sqrt (max 0 (1 - dist2 powr 1.5 * clamp_strength strength))))\<^sup>2
         = (clamp_strength strength)\<^sup>2 * dist2 + max 0 (1 - dist2 powr 1.5 * clamp_strength strength)"
    and "3 / 4 \<le> (clamp_strength strength)\<^sup>2 * dist2
                  + max 0 (1 - dist2 powr 1.5 * clamp_strength strength)"
proof -
  let ?k = "clamp_strength strength"
  let ?inner = "max 0 (1 - dist2 powr 1.5 * ?k)"
  have d0: "0 \<le> dist2" by (simp add: assms(1))
  show "raw_vector dx dy dist2 strength = Inr (dx * ?k, dy * ?k, sqrt ?inner)"
    using d0 by (rule raw_vector_eq)
  have "0 \<le> dx * ?k * (dx * ?k) + dy * ?k * (dy * ?k) + sqrt ?inner * sqrt ?inner"
    by (rule sum_squares3_nonneg)
  then have "(vec_len (dx * ?k, dy * ?k, sqrt ?inner))\<^sup>2
      = dx * ?k * (dx * ?k) + dy * ?k * (dy * ?k) + sqrt ?inner * sqrt ?inner"
    by (simp add: vec_len_def)
  also have "sqrt ?inner * sqrt ?inner = ?inner" by simp
  finally show "(vec_len (dx * ?k, dy * ?k, sqrt ?inner))\<^sup>2 = ?k\<^sup>2 * dist2 + ?inner"
    by (simp add: assms(1) power2_eq_square algebra_simps)
  note b = groove_len_bound [OF d0 assms(2), of ?k]
  have kr: "0 \<le> ?k" "?k \<le> 1" using clamp_strength_range by simp_all
  from b(1) [OF kr] b(2) [OF kr] show "3 / 4 \<le> ?k\<^sup>2 * dist2 + ?inner"
    by (simp add: power2_eq_square)
qed

lemma coords_at_5_3_2: "coords_at 5 3 2 = Inr (10 / 19, 0, 100 / 361)"
  by (simp add: coords_at_def pixel_coords_def fdiv_def center_def hole_radius_def)

lemma noise_of_range:
  assumes "0 \<le> u" "u < 1" "0 \<le> ns"
  shows "- ns / 2 \<le> noise_of u ns \<and> noise_of u ns \<le> ns / 2"
proof -
  have "(- (1 / 2)) * ns \<le> (u - 1 / 2) * ns"
    using assms by (intro mult_right_mono) simp_all
  moreover have "(u - 1 / 2) * ns \<le> (1 / 2) * ns"
    using assms by (intro mult_right_mono) simp_all
  ultimately show ?thesis by (simp add: noise_of_def)
qed

lemma unit_draws_quarter: "unit_draws quarter_draws"
  by (simp add: unit_draws_def quarter_draws_def)

lemma pixel_value_no_noise:
  "pixel_value sz strength 0 x y u1 u2 = pixel_value sz strength 0 x y u1' u2'"
  by (simp add: pixel_value_def final_normal_at_def add_noise_zero)

lemma generate_negative: "sz < 0 \<Longrightarrow> generate_normal_map sz strength ns g = Inl ValueError"
  by (simp add: generate_normal_map_def Image_new_def Let_def)

lemma generate_one: "generate_normal_map 1 strength ns g = Inl ZeroDivisionError"
  by (simp add: generate_normal_map_def Image_new_def Let_def center_def hole_radius_def
      pixel_step_def pixel_coords_zero_radius)

subsection \<open>Lengths, truncation loss and the test point\<close>

lemma vec_len_power2: "vec_len (a, b, c) = sqrt (a\<^sup>2 + b\<^sup>2 + c\<^sup>2)"
  by (simp add: vec_len_def power2_eq_square)

lemma vec_len_nested: "vec_len (a, b, c) = sqrt ((sqrt (a\<^sup>2 + b\<^sup>2))\<^sup>2 + c\<^sup>2)"
  by (simp add: vec_len_power2)

lemma vec_len_triangle:
  "vec_len (a1 + b1, a2 + b2, a3 + b3) \<le> vec_len (a1, a2, a3) + vec_len (b1, b2, b3)"
proof -
  let ?ra = "sqrt (a1\<^sup>2 + a2\<^sup>2)" and ?rb = "sqrt (b1\<^sup>2 + b2\<^sup>2)"
  let ?r = "sqrt ((a1 + b1)\<^sup>2 + (a2 + b2)\<^sup>2)"
  have r: "?r \<le> ?ra + ?rb" by (rule real_sqrt_sum_squares_triangle_ineq)
  have "0 \<le> ?r" by simp
  with r have "?r\<^sup>2 \<le> (?ra + ?rb)\<^sup>2" by (rule power_mono)
  then have "sqrt (?r\<^sup>2 + (a3 + b3)\<^sup>2) \<le> sqrt ((?ra + ?rb)\<^sup>2 + (a3 + b3)\<^sup>2)"
    by (intro real_sqrt_le_mono) simp
  also have "\<dots> \<le> sqrt (?ra\<^sup>2 + a3\<^sup>2) + sqrt (?rb\<^sup>2 + b3\<^sup>2)"
    by (rule real_sqrt_sum_squares_triangle_ineq)
  finally show ?thesis by (simp only: vec_len_nested)
qed

lemma vec_len_neg: "vec_len (- a, - b, - c) = vec_len (a, b, c)"
  by (simp add: vec_len_def)

lemma vec_len_diff:
  "\<bar>vec_len (a1, a2, a3) - vec_len (b1, b2, b3)\<bar> \<le> vec_len (a1 - b1, a2 - b2, a3 - b3)"
proof -
  have "vec_len ((a1 - b1) + b1, (a2 - b2) + b2, (a3 - b3) + b3)
      \<le> vec_len (a1 - b1, a2 - b2, a3 - b3) + vec_len (b1, b2, b3)"
    by (rule vec_len_triangle)
  then have 1: "vec_len (a1, a2, a3) \<le> vec_len (a1 - b1, a2 - b2, a3 - b3) + vec_len (b1, b2, b3)"
    by simp
  have "vec_len ((b1 - a1) + a1, (b2 - a2) + a2, (b3 - a3) + a3)
      \<le> vec_len (b1 - a1, b2 - a2, b3 - a3) + vec_len (a1, a2, a3)"
    by (rule vec_len_triangle)
  moreover have "vec_len (b1 - a1, b2 - a2, b3 - a3) = vec_len (a1 - b1, a2 - b2, a3 - b3)"
    using vec_len_neg [of "a1 - b1" "a2 - b2" "a3 - b3"] by simp
  ultimately have 2: "vec_len (b1, b2, b3) \<le> vec_len (a1 - b1, a2 - b2, a3 - b3) + vec_len (a1, a2, a3)"
    by simp
  from 1 2 show ?thesis by linarith
qed

lemma vec_len_unit:
  assumes "0 < vec_len (a, b, c)"
  shows "vec_len (a / vec_len (a, b, c), b / vec_len (a, b, c), c / vec_len (a, b, c)) = 1"
proof -
  let ?l = "vec_len (a, b, c)"
  have l2: "?l * ?l = a * a + b * b + c * c"
    by (simp add: vec_len_def sum_squares3_nonneg)
  have "a / ?l * (a / ?l) + b / ?l * (b / ?l) + c / ?l * (c / ?l) = (a * a + b * b + c * c) / (?l * ?l)"
    by (simp add: add_divide_distrib)
  also have "\<dots> = (?l * ?l) / (?l * ?l)" by (simp only: l2)
  also have "\<dots> = 1" using assms by simp
  finally have "sqrt (a / ?l * (a / ?l) + b / ?l * (b / ?l) + c / ?l * (c / ?l)) = 1" by simp
  then show ?thesis by (simp add: vec_len_def [of "(a / ?l, b / ?l, c / ?l)"])
qed

lemma normalize3_unit:
  assumes "vec_len v > 1 / 1000000"
  shows "\<exists>n. normalize3 v = Inr n \<and> vec_len n = 1"
proof -
  obtain a b c where v: "v = (a, b, c)" by (cases v)
  from assms have "0 < vec_len (a, b, c)" by (simp add: v)
  then have "vec_len (a / vec_len (a, b, c), b / vec_len (a, b, c), c / vec_len (a, b, c)) = 1"
    by (rule vec_len_unit)
  with assms show ?thesis by (simp add: normalize3_eq v)
qed

lemma decode_encode_error:
  assumes "\<bar>c\<bar> \<le> 1"
  shows "0 \<le> c - decode_channel (encode_channel c)"
    and "c - decode_channel (encode_channel c) < 2 / 255"
proof -
  let ?t = "(c * 0.5 + 0.5) * 255"
  have e: "encode_channel c = \<lfloor>?t\<rfloor>" using assms by (rule encode_channel_floor)
  have lo: "real_of_int \<lfloor>?t\<rfloor> \<le> ?t" by (rule of_int_floor_le)
  have hi: "?t < real_of_int \<lfloor>?t\<rfloor> + 1" by linarith
  from lo show "0 \<le> c - decode_channel (encode_channel c)"
    by (simp add: e decode_channel_def field_simps)
  from hi show "c - decode_channel (encode_channel c) < 2 / 255"
    by (simp add: e decode_channel_def field_simps)
qed

lemma small_vec_len:
  assumes "0 \<le> a" "a < 2 / 255" "0 \<le> b" "b < 2 / 255" "0 \<le> c" "c < 2 / 255"
  shows "vec_len (a, b, c) < 0.0136"
proof -
  have sq: "x * x < (2 / 255) * (2 / 255)" if "0 \<le> x" "x < 2 / 255" for x :: real
    using that by (intro mult_strict_mono) simp_all
  have "a * a + b * b + c * c < 3 * ((2 / 255) * (2 / 255))"
    using sq [OF assms(1,2)] sq [OF assms(3,4)] sq [OF assms(5,6)] by linarith
  also have "\<dots> < (0.0136::real)\<^sup>2" by (simp add: power2_eq_square)
  finally have "a * a + b * b + c * c < (0.0136::real)\<^sup>2" .
  then have "sqrt (a * a + b * b + c * c) < 0.0136"
    by (intro real_less_lsqrt) simp_all
  then show ?thesis by (simp add: vec_len_def)
qed

lemma decoded_unit_close:
  assumes "normalize3 v = Inr n" "vec_len n = 1"
  shows "\<bar>vec_len (decode_rgb (encode_rgba n)) - 1\<bar> < 0.0136"
proof -
  obtain nx ny nz where n: "n = (nx, ny, nz)" by (cases n)
  from assms(1) n have comp: "\<bar>nx\<bar> \<le> 1" "\<bar>ny\<bar> \<le> 1" "\<bar>nz\<bar> \<le> 1"
    using normalize3_components by blast+
  let ?d = "\<lambda>c. decode_channel (encode_channel c)"
  have d: "decode_rgb (encode_rgba n) = (?d nx, ?d ny, ?d nz)"
    by (simp add: n decode_rgb_def encode_rgba_def)
  have "\<bar>vec_len (nx, ny, nz) - vec_len (?d nx, ?d ny, ?d nz)\<bar>
      \<le> vec_len (nx - ?d nx, ny - ?d ny, nz - ?d nz)"
    by (rule vec_len_diff)
  also have "\<dots> < 0.0136"
    using decode_encode_error [OF comp(1)] decode_encode_error [OF comp(2)]
      decode_encode_error [OF comp(3)] by (intro small_vec_len)
  finally have "\<bar>vec_len (nx, ny, nz) - vec_len (?d nx, ?d ny, ?d nz)\<bar> < 0.0136" .
  moreover have "vec_len (nx, ny, nz) = 1" using assms(2) by (simp add: n)
  ultimately have "\<bar>1 - vec_len (?d nx, ?d ny, ?d nz)\<bar> < 0.0136" by simp
  then have "\<bar>vec_len (?d nx, ?d ny, ?d nz) - 1\<bar> < 0.0136" by (simp add: abs_minus_commute)
  then show ?thesis by (simp only: d)
qed

lemma powr_three_halves: "0 \<le> x \<Longrightarrow> x powr 1.5 = x * sqrt x"
proof -
  assume x: "0 \<le> x"
  have "x powr 1.5 = x powr (1 + 1 / 2)" by simp
  also have "\<dots> = x powr 1 * x powr (1 / 2)" by (rule powr_add)
  also have "\<dots> = x * sqrt x" using x by (simp add: powr_half_sqrt)
  finally show ?thesis .
qed

lemma sample_powr: "(2500 / 3249 :: real) powr 1.5 = 125000 / 185193"
proof -
  have "sqrt (2500 / 3249 :: real) = sqrt ((50 / 57)\<^sup>2)" by (simp add: power2_eq_square)
  also have "\<dots> = 50 / 57" by (simp only: real_sqrt_abs)
  finally have r: "sqrt (2500 / 3249 :: real) = 50 / 57" .
  have "(2500 / 3249 :: real) powr 1.5 = 2500 / 3249 * sqrt (2500 / 3249)"
    by (rule powr_three_halves) simp
  also have "\<dots> = 2500 / 3249 * (50 / 57)" by (simp only: r)
  also have "\<dots> = 125000 / 185193" by simp
  finally show ?thesis .
qed

lemma coords_at_13_10_9: "coords_at 13 10 9 = Inr (40 / 57, 10 / 19, 2500 / 3249)"
  by (simp add: coords_at_def pixel_coords_def fdiv_def center_def hole_radius_def)

lemma sample_raw:
  "raw_vector (40 / 57) (10 / 19) (2500 / 3249) (3 / 5) = Inr (8 / 19, 6 / 19, sqrt (36731 / 61731))"
proof -
  have k: "clamp_strength (3 / 5) = 3 / 5" by (simp add: clamp_strength_def)
  have "raw_vector (40 / 57) (10 / 19) (2500 / 3249) (3 / 5)
      = Inr (40 / 57 * (3 / 5), 10 / 19 * (3 / 5), sqrt (max 0 (1 - (2500 / 3249) powr 1.5 * (3 / 5))))"
    using raw_vector_eq [of "2500 / 3249" "40 / 57" "10 / 19" "3 / 5"] by (simp only: k)
  then show ?thesis by (simp only: sample_powr) simp
qed

lemma sample_len: "vec_len (8 / 19, 6 / 19, sqrt (36731 / 61731)) = sqrt (53831 / 61731)"
  by (simp add: vec_len_def)

lemma sqrt_bounds_len:
  "(0.9337::real) < sqrt (53831 / 61731) \<and> sqrt (53831 / 61731) < (0.934::real)"
proof
  show "(0.9337::real) < sqrt (53831 / 61731)"
    by (rule real_less_rsqrt) (simp add: power2_eq_square)
  show "sqrt (53831 / 61731) < (0.934::real)"
    by (rule real_less_lsqrt) (simp_all add: power2_eq_square)
qed

lemma sqrt_bounds_dz:
  "(0.7713::real) < sqrt (36731 / 61731) \<and> sqrt (36731 / 61731) < (0.7714::real)"
proof
  show "(0.7713::real) < sqrt (36731 / 61731)"
    by (rule real_less_rsqrt) (simp add: power2_eq_square)
  show "sqrt (36731 / 61731) < (0.7714::real)"
    by (rule real_less_lsqrt) (simp_all add: power2_eq_square)
qed

lemma sample_pre_noise: "pre_noise_at 13 (3 / 5) 10 9 = Inr sample_normal"
proof -
  have guard: "vec_len (8 / 19, 6 / 19, sqrt (36731 / 61731)) > 1 / 1000000"
    using sqrt_bounds_len by (simp only: sample_len) simp
  have "normalize3 (8 / 19, 6 / 19, sqrt (36731 / 61731)) = Inr sample_normal"
    using guard by (simp add: normalize3_eq sample_normal_def sample_len)
  then show ?thesis
    by (simp add: pre_noise_at_def coords_at_13_10_9 surface_vector_def sample_raw)
qed

lemma sample_unit: "vec_len sample_normal = 1"
proof -
  have "0 < vec_len (8 / 19, 6 / 19, sqrt (36731 / 61731))"
    using sqrt_bounds_len by (simp only: sample_len) simp
  then have "vec_len (8 / 19 / vec_len (8 / 19, 6 / 19, sqrt (36731 / 61731)),
      6 / 19 / vec_len (8 / 19, 6 / 19, sqrt (36731 / 61731)),
      sqrt (36731 / 61731) / vec_len (8 / 19, 6 / 19, sqrt (36731 / 61731))) = 1"
    by (rule vec_len_unit)
  then show ?thesis by (simp only: sample_len sample_normal_def)
qed

lemma sample_final_normal: "final_normal_at 13 (3 / 5) 0 10 9 u1 u2 = Inr sample_normal"
proof -
  have "normalize3 sample_normal = Inr sample_normal"
    by (simp add: normalize3_eq sample_unit) (simp add: sample_normal_def)?
  then show ?thesis
    by (simp add: final_normal_at_def sample_pre_noise add_noise_zero)
qed

lemma encode_channel_eq:
  assumes "0 \<le> m" "real_of_int m \<le> (c * 0.5 + 0.5) * 255" "(c * 0.5 + 0.5) * 255 < real_of_int m + 1"
  shows "encode_channel c = m"
proof -
  have "0 \<le> (c * 0.5 + 0.5) * 255" using assms(1,2) by linarith
  moreover have "\<lfloor>(c * 0.5 + 0.5) * 255\<rfloor> = m" using assms(2,3) by linarith
  ultimately show ?thesis by (simp add: encode_channel_def py_int_def)
qed

lemma sample_components:
  fixes s z :: real
  assumes "0.9337 < s" "s < 0.934" "0.7713 < z" "z < 0.7714"
  shows "0.4508 < 8 / 19 / s \<and> 8 / 19 / s < 0.45096"
    and "0.3381 < 6 / 19 / s \<and> 6 / 19 / s < 0.33822"
    and "0.8258 < z / s \<and> z / s < 0.8262"
proof -
  have s: "0 < s" using assms(1) by simp
  show "0.4508 < 8 / 19 / s \<and> 8 / 19 / s < 0.45096"
    using assms s by (simp add: pos_less_divide_eq pos_divide_less_eq)
  show "0.3381 < 6 / 19 / s \<and> 6 / 19 / s < 0.33822"
    using assms s by (simp add: pos_less_divide_eq pos_divide_less_eq)
  show "0.8258 < z / s \<and> z / s < 0.8262"
    using assms s by (simp add: pos_less_divide_eq pos_divide_less_eq)
qed

lemma sample_normal_bounds:
  "\<exists>nx ny nz. sample_normal = (nx, ny, nz)
     \<and> 0.4508 < nx \<and> nx < 0.45096 \<and> 0.3381 < ny \<and> ny < 0.33822 \<and> 0.8258 < nz \<and> nz < 0.8262"
  using sample_components [of "sqrt (53831 / 61731)" "sqrt (36731 / 61731)"]
    sqrt_bounds_len sqrt_bounds_dz
  by (simp only: sample_normal_def) blast

lemma sample_encode: "encode_rgba sample_normal = (184, 170, 232, 255)"
proof -
  obtain nx ny nz where n: "sample_normal = (nx, ny, nz)"
    and b: "0.4508 < nx" "nx < 0.45096" "0.3381 < ny" "ny < 0.33822" "0.8258 < nz" "nz < 0.8262"
    using sample_normal_bounds by blast
  have "encode_channel nx = 184" using b(1,2) by (intro encode_channel_eq) simp_all
  moreover have "encode_channel ny = 170" using b(3,4) by (intro encode_channel_eq) simp_all
  moreover have "encode_channel nz = 232" using b(5,6) by (intro encode_channel_eq) simp_all
  ultimately show ?thesis by (simp add: n encode_rgba_def)
qed

lemma round_eq:
  assumes "real_of_int m - 1 / 2 \<le> t" "t < real_of_int m + 1 / 2"
  shows "round t = m"
  using assms unfolding round_def by linarith

lemma sample_spec_encode: "spec_encode_rgba sample_normal = (185, 171, 233, 255)"
proof -
  obtain nx ny nz where n: "sample_normal = (nx, ny, nz)"
    and b: "0.4508 < nx" "nx < 0.45096" "0.3381 < ny" "ny < 0.33822" "0.8258 < nz" "nz < 0.8262"
    using sample_normal_bounds by blast
  have "round ((nx * 0.5 + 0.5) * 255) = 185" using b(1,2) by (intro round_eq) simp_all
  moreover have "round ((ny * 0.5 + 0.5) * 255) = 171" using b(3,4) by (intro round_eq) simp_all
  moreover have "round ((nz * 0.5 + 0.5) * 255) = 233" using b(5,6) by (intro round_eq) simp_all
  ultimately show ?thesis by (simp add: n spec_encode_rgba_def)
qed

lemma sample_pixel:
  "pixel_at (generate_normal_map 13 (3 / 5) 0 g) 10 9 = Some (184, 170, 232, 255)"
proof -
  have "pixel_value 13 (3 / 5) 0 10 9 (g (draw_index 13 10 9)) (g (draw_index 13 10 9 + 1))
      = Inr (184, 170, 232, 255)"
    by (simp add: pixel_value_def sample_final_normal sample_encode)
  then show ?thesis
    by (rule pixel_at_generate [rotated 2]) simp_all
qed

lemma sample_decoded_short: "vec_len (decode_rgb (184, 170, 232, 255)) < 0.99"
proof -
  have "vec_len (decode_rgb (184, 170, 232, 255)) = sqrt (63675 / 65025)"
    by (simp add: decode_rgb_def decode_channel_def vec_len_def)
  also have "\<dots> < 0.99"
    by (rule real_less_lsqrt) (simp_all add: power2_eq_square)
  finally show ?thesis .
qed

subsection \<open>Canvases of size two and more\<close>

lemma encode_alpha: "snd (snd (snd (encode_rgba n))) = 255"
  by (cases n) (simp add: encode_rgba_def)

lemma canvas_dims_alpha:
  assumes "2 \<le> sz"
  shows "\<exists>img g'. generate_normal_map sz strength ns g = Inr (img, g')
           \<and> width img = sz \<and> height img = sz
           \<and> (\<forall>y<nat sz. \<forall>x<nat sz. snd (snd (snd (pixels img (x, y)))) = 255)"
proof -
  from assms have "0 \<le> sz" "sz \<noteq> 1" by simp_all
  then obtain img g' where gen: "generate_normal_map sz strength ns g = Inr (img, g')"
    using generate_total by blast
  note p = generate_pixels [OF gen]
  have "\<forall>y<nat sz. \<forall>x<nat sz. snd (snd (snd (pixels img (x, y)))) = 255"
  proof (intro allI impI)
    fix y x assume "y < nat sz" "x < nat sz"
    with p have "pixel_value sz strength ns x y (g (draw_index sz x y)) (g (draw_index sz x y + 1))
        = Inr (pixels img (x, y))" by blast
    then obtain n where "pixels img (x, y) = encode_rgba n"
      using pixel_value_Inr by blast
    then show "snd (snd (snd (pixels img (x, y)))) = 255" by (simp add: encode_alpha)
  qed
  with gen p show ?thesis by blast
qed

lemma pre_noise_unit:
  assumes "pre_noise_at sz strength x y = Inr v"
  shows "vec_len v = 1"
proof -
  from assms obtain dx dy dist2 where co: "coords_at sz x y = Inr (dx, dy, dist2)"
    and sv: "surface_vector dx dy dist2 strength = Inr v"
    by (auto simp: pre_noise_at_def bind_res_eq_Inr)
  show ?thesis
  proof (cases "dist2 \<le> 1")
    case False
    with sv have "v = (0, 0, 1)" by (simp add: surface_vector_def)
    then show ?thesis by (simp add: vec_len_def)
  next
    case True
    let ?k = "clamp_strength strength"
    let ?w = "(dx * ?k, dy * ?k, sqrt (max 0 (1 - dist2 powr 1.5 * ?k)))"
    have d: "dist2 = dx * dx + dy * dy"
      using co by (auto simp: coords_at_def dest: pixel_coords_dist2_nonneg)
    note r = raw_vector_len [OF d True, of strength]
    have "(1 / 2)\<^sup>2 \<le> (vec_len ?w)\<^sup>2" using r(2) r(3) by (simp add: power2_eq_square)
    then have "1 / 2 \<le> vec_len ?w"
      by (rule power2_le_imp_le) (rule vec_len_nonneg)
    then have "vec_len ?w > 1 / 1000000" by simp
    from normalize3_unit [OF this] obtain n where "normalize3 ?w = Inr n" "vec_len n = 1"
      by blast
    moreover from sv True r(1) have "normalize3 ?w = Inr v" by (simp add: surface_vector_def)
    ultimately show ?thesis by simp
  qed
qed

subsection \<open>The noise terms, and a corner pixel with noise\<close>

lemma draw_range:
  fixes u ns :: real
  assumes "0 \<le> u" "u < 1" "0 \<le> ns"
  shows "- ns / 2 \<le> (u - 1 / 2) * ns \<and> (u - 1 / 2) * ns \<le> ns / 2"
proof -
  have "(- (1 / 2)) * ns \<le> (u - 1 / 2) * ns"
    using assms by (intro mult_right_mono) simp_all
  moreover have "(u - 1 / 2) * ns \<le> (1 / 2) * ns"
    using assms by (intro mult_right_mono) simp_all
  ultimately show ?thesis by simp
qed

lemma add_noise_explicit:
  "add_noise (vx, vy, vz) u1 u2 ns = (vx + (u1 - 1 / 2) * ns, vy + (u2 - 1 / 2) * ns, vz)"
  by (simp add: add_noise_def noise_of_def)

lemma noisy_corner_len:
  "(1::real) < sqrt (20001 / 20000) \<and> sqrt (20001 / 20000) < (1.0001::real)"
proof
  show "(1::real) < sqrt (20001 / 20000)"
    by (rule real_less_rsqrt) simp
  show "sqrt (20001 / 20000) < (1.0001::real)"
    by (rule real_less_lsqrt) (simp_all add: power2_eq_square)
qed

lemma noisy_corner_components:
  fixes s :: real
  assumes "1 < s" "s < 1.0001"
  shows "encode_rgba (- (1 / 200) / s, - (1 / 200) / s, 1 / s) = (126, 126, 254, 255)"
proof -
  have s: "0 < s" using assms(1) by simp
  have x: "- 0.0051 < - (1 / 200) / s \<and> - (1 / 200) / s < - 0.0049"
    using assms s by (simp add: pos_less_divide_eq pos_divide_less_eq)
  have z: "0.9998 < 1 / s \<and> 1 / s < 1"
    using assms s by (simp add: pos_less_divide_eq pos_divide_less_eq)
  have "encode_channel (- (1 / 200) / s) = 126" using x by (intro encode_channel_eq) simp_all
  moreover have "encode_channel (1 / s) = 254" using z by (intro encode_channel_eq) simp_all
  ultimately show ?thesis by (simp add: encode_rgba_def)
qed

lemma noisy_corner_normal:
  "normalize3 (0 + (1 / 4 - 1 / 2) * (1 / 50), 0 + (1 / 4 - 1 / 2) * (1 / 50), 1)
     = Inr (- (1 / 200) / sqrt (20001 / 20000), - (1 / 200) / sqrt (20001 / 20000),
            1 / sqrt (20001 / 20000))"
proof -
  have l: "vec_len (- (1 / 200), - (1 / 200), 1) = sqrt (20001 / 20000)"
    by (simp add: vec_len_def)
  have "(1::real) < sqrt (20001 / 20000)"
    using noisy_corner_len by (rule conjunct1)
  then have "vec_len (- (1 / 200), - (1 / 200), 1) > 1 / 1000000"
    unfolding l by linarith
  then have "normalize3 (- (1 / 200), - (1 / 200), 1)
      = Inr (- (1 / 200) / sqrt (20001 / 20000), - (1 / 200) / sqrt (20001 / 20000),
            1 / sqrt (20001 / 20000))"
    by (simp add: normalize3_eq l)
  then show ?thesis by simp
qed

lemma noisy_corner_pixel:
  "pixel_at (generate_normal_map 2 (3 / 5) (1 / 50) quarter_draws) 0 0 = Some (126, 126, 254, 255)"
proof -
  have pre: "pre_noise_at 2 (3 / 5) 0 0 = Inr (0, 0, 1)"
    by (rule pre_noise_outside [OF coords_at_2_0_0]) simp
  have "pixel_value 2 (3 / 5) (1 / 50) 0 0 (quarter_draws (draw_index 2 0 0))
      (quarter_draws (draw_index 2 0 0 + 1))
      = Inr (encode_rgba (- (1 / 200) / sqrt (20001 / 20000), - (1 / 200) / sqrt (20001 / 20000),
            1 / sqrt (20001 / 20000)))"
    using noisy_corner_normal
    by (simp add: pixel_value_def final_normal_at_def pre add_noise_explicit quarter_draws_def)
  also have "\<dots> = Inr (126, 126, 254, 255)"
    using noisy_corner_components [of "sqrt (20001 / 20000)"] noisy_corner_len by simp
  finally show ?thesis
    by (rule pixel_at_generate [rotated 2]) simp_all
qed

section \<open>The claims\<close>

text \<open>
  Claim C1 says the channels are \<open>round ((n * 0.5 + 0.5) * 255)\<close>. The script applies
  \<^verbatim>\<open>int\<close>, which drops the fractional part. At pixel \<open>(10, 9)\<close> of the 13 by 13 canvas
  with strength \<open>0.6\<close> and no noise the three scaled components are about \<open>184.99\<close>,
  \<open>170.62\<close> and \<open>232.82\<close>: the script stores \<open>(184, 170, 232)\<close>, rounding to the
  nearest integer would store \<open>(185, 171, 233)\<close>.
\<close>

theorem encoding_is_not_rounding:
  "final_normal_at 13 (3 / 5) 0 10 9 (zero_draws (draw_index 13 10 9))
     (zero_draws (draw_index 13 10 9 + 1)) = Inr sample_normal
   \<and> spec_encode_rgba sample_normal = (185, 171, 233, 255)
   \<and> pixel_at (generate_normal_map 13 (3 / 5) 0 zero_draws) 10 9 = Some (184, 170, 232, 255)
   \<and> pixel_at (generate_normal_map 13 (3 / 5) 0 zero_draws) 10 9
       \<noteq> Some (spec_encode_rgba sample_normal)"
  by (simp add: sample_final_normal sample_spec_encode sample_pixel)

text \<open>
  Claim C1, amended. For every pixel of a returned canvas, with \<open>(nx, ny, nz)\<close> its final
  normal vector, the stored channels are \<open>R = \<lfloor>(nx * 0.5 + 0.5) * 255\<rfloor>\<close>,
  \<open>G = \<lfloor>(ny * 0.5 + 0.5) * 255\<rfloor>\<close>, \<open>B = \<lfloor>(nz * 0.5 + 0.5) * 255\<rfloor>\<close> and \<open>A = 255\<close>: the
  scaled value with its fractional part dropped (it is never negative, so \<^verbatim>\<open>int\<close> is the
  floor), not the nearest integer.
\<close>

theorem encoding_truncates:
  assumes "pixel_at (generate_normal_map sz strength noise_scale g) x y = Some c"
  shows "\<exists>nx ny nz.
           final_normal_at sz strength noise_scale x y (g (draw_index sz x y))
             (g (draw_index sz x y + 1)) = Inr (nx, ny, nz)
         \<and> c = (\<lfloor>(nx * 0.5 + 0.5) * 255\<rfloor>, \<lfloor>(ny * 0.5 + 0.5) * 255\<rfloor>,
                \<lfloor>(nz * 0.5 + 0.5) * 255\<rfloor>, 255)"
proof -
  let ?u1 = "g (draw_index sz x y)" and ?u2 = "g (draw_index sz x y + 1)"
  from pixel_at_generate_Some [OF assms]
  have "pixel_value sz strength noise_scale x y ?u1 ?u2 = Inr c" by simp
  then obtain v n where nn: "normalize3 (add_noise v ?u1 ?u2 noise_scale) = Inr n"
    and fin: "final_normal_at sz strength noise_scale x y ?u1 ?u2 = Inr n"
    and c: "c = encode_rgba n"
    using pixel_value_Inr by blast
  obtain nx ny nz where n: "n = (nx, ny, nz)" by (cases n)
  from nn n have "\<bar>nx\<bar> \<le> 1" "\<bar>ny\<bar> \<le> 1" "\<bar>nz\<bar> \<le> 1"
    using normalize3_components by blast+
  then have "encode_rgba (nx, ny, nz) = (\<lfloor>(nx * 0.5 + 0.5) * 255\<rfloor>, \<lfloor>(ny * 0.5 + 0.5) * 255\<rfloor>,
      \<lfloor>(nz * 0.5 + 0.5) * 255\<rfloor>, 255)"
    by (simp only: encode_rgba_def encode_channel_floor prod.case)
  with fin c n show ?thesis by blast
qed

theorem encoding_truncates_witness:
  "pixel_at (generate_normal_map 13 (3 / 5) 0 zero_draws) 10 9 = Some (184, 170, 232, 255)
   \<and> (\<exists>nx ny nz.
         final_normal_at 13 (3 / 5) 0 10 9 (zero_draws (draw_index 13 10 9))
           (zero_draws (draw_index 13 10 9 + 1)) = Inr (nx, ny, nz)
       \<and> (184, 170, 232, 255) = (\<lfloor>(nx * 0.5 + 0.5) * 255\<rfloor>, \<lfloor>(ny * 0.5 + 0.5) * 255\<rfloor>,
                \<lfloor>(nz * 0.5 + 0.5) * 255\<rfloor>, 255))"
proof -
  have h: "pixel_at (generate_normal_map 13 (3 / 5) 0 zero_draws) 10 9 = Some (184, 170, 232, 255)"
    by (rule sample_pixel)
  from encoding_truncates [OF h] h show ?thesis by blast
qed

text \<open>
  Claim C2 bounds the length of the decoded vector by \<open>0.01\<close> around \<open>1\<close>. Dropping the fractional
  part lowers each decoded component by up to \<open>2/255\<close>, and the three losses can add up:
  at pixel \<open>(10, 9)\<close> of the 13 by 13 canvas with strength \<open>0.6\<close> and no noise, the
  vector has length about \<open>0.934\<close> before its normalisation and \<open>1\<close> before the
  noise step, and the stored pixel \<open>(184, 170, 232)\<close> decodes to a
  vector of length below \<open>0.99\<close>.
\<close>

theorem decoded_length_outside_tolerance:
  "pixel_at (generate_normal_map 13 (3 / 5) 0 zero_draws) 10 9 = Some (184, 170, 232, 255)
   \<and> coords_at 13 10 9 = Inr (40 / 57, 10 / 19, 2500 / 3249)
   \<and> raw_vector (40 / 57) (10 / 19) (2500 / 3249) (3 / 5)
       = Inr (8 / 19, 6 / 19, sqrt (36731 / 61731))
   \<and> vec_len (8 / 19, 6 / 19, sqrt (36731 / 61731)) > 1 / 1000000
   \<and> pre_noise_at 13 (3 / 5) 10 9 = Inr sample_normal
   \<and> vec_len sample_normal > 1 / 1000000
   \<and> \<not> \<bar>vec_len (decode_rgb (184, 170, 232, 255)) - 1\<bar> \<le> 0.01"
proof -
  have "vec_len (decode_rgb (184, 170, 232, 255)) < 0.99" by (rule sample_decoded_short)
  then have a: "\<not> \<bar>vec_len (decode_rgb (184, 170, 232, 255)) - 1\<bar> \<le> 0.01" by simp
  have b: "vec_len (8 / 19, 6 / 19, sqrt (36731 / 61731)) > 1 / 1000000"
    using sqrt_bounds_len by (simp only: sample_len) simp
  from a b show ?thesis
    by (simp add: sample_pixel sample_pre_noise sample_unit coords_at_13_10_9 sample_raw)
qed

text \<open>
  Claim C2, amended. For every pixel of a canvas generated with \<open>noise_scale = 0\<close> whose
  pre-noise vector is longer than \<open>1e-6\<close>, the vector decoded from the stored channels has
  a length within \<open>0.0136\<close> of \<open>1\<close> (\<open>2 * sqrt 3 / 255\<close>, the length of the largest
  possible truncation loss, is just below \<open>0.0136\<close>).
\<close>

theorem decoded_length_near_one:
  assumes "pixel_at (generate_normal_map sz strength 0 g) x y = Some c"
    and "pre_noise_at sz strength x y = Inr v"
    and "vec_len v > 1 / 1000000"
  shows "\<bar>vec_len (decode_rgb c) - 1\<bar> < 0.0136"
proof -
  let ?u1 = "g (draw_index sz x y)" and ?u2 = "g (draw_index sz x y + 1)"
  from pixel_at_generate_Some [OF assms(1)]
  have "pixel_value sz strength 0 x y ?u1 ?u2 = Inr c" by simp
  then obtain v' n where v': "pre_noise_at sz strength x y = Inr v'"
    and nn: "normalize3 (add_noise v' ?u1 ?u2 0) = Inr n"
    and c: "c = encode_rgba n"
    using pixel_value_Inr by blast
  from v' assms(2) have "v' = v" by simp
  with nn have n: "normalize3 v = Inr n" by (simp add: add_noise_zero)
  from normalize3_unit [OF assms(3)] n have "vec_len n = 1" by auto
  with n show ?thesis unfolding c by (rule decoded_unit_close)
qed

theorem decoded_length_near_one_witness:
  "pixel_at (generate_normal_map 13 (3 / 5) 0 zero_draws) 10 9 = Some (184, 170, 232, 255)
   \<and> pre_noise_at 13 (3 / 5) 10 9 = Inr sample_normal
   \<and> vec_len sample_normal > 1 / 1000000
   \<and> \<bar>vec_len (decode_rgb (184, 170, 232, 255)) - 1\<bar> < 0.0136"
proof -
  have h: "pixel_at (generate_normal_map 13 (3 / 5) 0 zero_draws) 10 9 = Some (184, 170, 232, 255)"
    by (rule sample_pixel)
  have l: "vec_len sample_normal > 1 / 1000000" by (simp add: sample_unit)
  from decoded_length_near_one [OF h sample_pre_noise l] h sample_pre_noise l
  show ?thesis by blast
qed

text \<open>
  Claim C3. A pixel of the canvas whose \<open>dist2\<close> exceeds \<open>1\<close> has the pre-noise vector
  \<open>(0, 0, 1)\<close>, and with \<open>noise_scale = 0\<close> its stored channels are
  \<open>(127, 127, 255, 255)\<close>: R and G are \<open>127\<close>, the lower of the two values
  \<open>127/128\<close> that the claim allows for the flat normal, and B is \<open>255\<close>.
\<close>

theorem outside_disc_flat:
  assumes "x < nat sz" "y < nat sz"
    and "coords_at sz x y = Inr (dx, dy, dist2)"
    and "1 < dist2"
  shows "pre_noise_at sz strength x y = Inr (0, 0, 1)
       \<and> pixel_at (generate_normal_map sz strength 0 g) x y = Some (127, 127, 255, 255)"
proof -
  have v: "pre_noise_at sz strength x y = Inr (0, 0, 1)"
    using assms(3,4) by (rule pre_noise_outside)
  then have "pixel_value sz strength 0 x y (g (draw_index sz x y)) (g (draw_index sz x y + 1))
      = Inr (127, 127, 255, 255)"
    by (rule pixel_value_flat)
  with assms(1,2) have "pixel_at (generate_normal_map sz strength 0 g) x y = Some (127, 127, 255, 255)"
    by (rule pixel_at_generate)
  with v show ?thesis by simp
qed

theorem outside_disc_flat_witness:
  "(0::nat) < nat 2 \<and> coords_at 2 0 0 = Inr (- (20 / 19), - (20 / 19), 800 / 361)
   \<and> (1::real) < 800 / 361
   \<and> pre_noise_at 2 (3 / 5) 0 0 = Inr (0, 0, 1)
   \<and> pixel_at (generate_normal_map 2 (3 / 5) 0 zero_draws) 0 0 = Some (127, 127, 255, 255)"
proof -
  have a: "(0::nat) < nat 2" by simp
  have b: "(1::real) < 800 / 361" by simp
  from outside_disc_flat [OF a a coords_at_2_0_0 b] a b coords_at_2_0_0 show ?thesis by simp
qed

text \<open>
  Claim C4. For every size and every noise scale (and every sequence of random draws),
  the call with \<open>strength = 1.5\<close> gives the same result as the call with
  \<open>strength = 1.0\<close>: the only use of \<open>strength\<close> is through the clamped \<open>k\<close>.
\<close>

theorem strength_clamped_before_use:
  "generate_normal_map sz 1.5 noise_scale g = generate_normal_map sz 1.0 noise_scale g"
  by (rule generate_clamp_cong) (simp add: clamp_strength_def)

text \<open>
  Claim C5. With \<open>noise_scale = 0\<close> the canvas (or the exception raised instead) depends
  on \<open>size\<close> and \<open>strength\<close> only: two calls that see different sequences of random
  draws return equal canvases.
\<close>

theorem deterministic_without_noise:
  "canvas_of (generate_normal_map sz strength 0 g1) = canvas_of (generate_normal_map sz strength 0 g2)"
proof -
  consider "sz < 0" | "sz = 1" | "0 \<le> sz" "sz \<noteq> 1" by linarith
  then show ?thesis
  proof cases
    case 1
    then show ?thesis by (simp add: generate_negative)
  next
    case 2
    then show ?thesis by (simp add: generate_one)
  next
    case 3
    obtain img1 g1' where r1: "generate_normal_map sz strength 0 g1 = Inr (img1, g1')"
      using generate_total [OF 3] by blast
    obtain img2 g2' where r2: "generate_normal_map sz strength 0 g2 = Inr (img2, g2')"
      using generate_total [OF 3] by blast
    note p1 = generate_pixels [OF r1] and p2 = generate_pixels [OF r2]
    have "pixels img1 p = pixels img2 p" for p
    proof (cases "fst p < nat sz \<and> snd p < nat sz")
      case True
      obtain x y where p: "p = (x, y)" by (cases p)
      with True have xy: "x < nat sz" "y < nat sz" by simp_all
      from p1 xy have "pixel_value sz strength 0 x y (g1 (draw_index sz x y))
          (g1 (draw_index sz x y + 1)) = Inr (pixels img1 (x, y))" by blast
      moreover from p2 xy have "pixel_value sz strength 0 x y (g2 (draw_index sz x y))
          (g2 (draw_index sz x y + 1)) = Inr (pixels img2 (x, y))" by blast
      moreover have "pixel_value sz strength 0 x y (g1 (draw_index sz x y)) (g1 (draw_index sz x y + 1))
          = pixel_value sz strength 0 x y (g2 (draw_index sz x y)) (g2 (draw_index sz x y + 1))"
        by (rule pixel_value_no_noise)
      ultimately show ?thesis by (simp add: p)
    next
      case False
      then have out: "nat sz \<le> snd p \<or> nat sz \<le> fst p" by auto
      from p1 out have "pixels img1 p = (0, 0, 0, 0)" by blast
      moreover from p2 out have "pixels img2 p = (0, 0, 0, 0)" by blast
      ultimately show ?thesis by simp
    qed
    then have "pixels img1 = pixels img2" by (rule ext)
    moreover have "width img1 = width img2" "height img1 = height img2"
      using p1 p2 by simp_all
    ultimately have "img1 = img2" by simp
    with r1 r2 show ?thesis by (simp add: canvas_of_def)
  qed
qed

text \<open>
  Claim C6. For every pixel of a returned canvas, inside or outside the disc, with
  \<open>(vx, vy, vz)\<close> its pre-noise vector and \<open>u1\<close>, \<open>u2\<close> the two values it draws from the
  random source (the ones at positions \<open>draw_index\<close> and \<open>draw_index + 1\<close>, which no
  other pixel reads): the noise step yields
  \<open>(vx + (u1 - 1/2) * noise_scale, vy + (u2 - 1/2) * noise_scale, vz)\<close>, the z component
  unchanged, and the stored pixel is the encoding of that vector normalised. When the draws
  are in \<open>[0, 1)\<close>, as the library promises, and the noise scale is not negative, both
  added terms lie in \<open>[-noise_scale/2, +noise_scale/2]\<close>.
\<close>

theorem noise_added_to_x_and_y_only:
  assumes "pixel_at (generate_normal_map sz strength noise_scale g) x y = Some c"
  shows "\<exists>vx vy vz n.
           pre_noise_at sz strength x y = Inr (vx, vy, vz)
         \<and> add_noise (vx, vy, vz) (g (draw_index sz x y)) (g (draw_index sz x y + 1)) noise_scale
             = (vx + (g (draw_index sz x y) - 1 / 2) * noise_scale,
                vy + (g (draw_index sz x y + 1) - 1 / 2) * noise_scale,
                vz)
         \<and> normalize3 (vx + (g (draw_index sz x y) - 1 / 2) * noise_scale,
                        vy + (g (draw_index sz x y + 1) - 1 / 2) * noise_scale,
                        vz) = Inr n
         \<and> c = encode_rgba n
         \<and> (unit_draws g \<and> 0 \<le> noise_scale \<longrightarrow>
               - noise_scale / 2 \<le> (g (draw_index sz x y) - 1 / 2) * noise_scale
             \<and> (g (draw_index sz x y) - 1 / 2) * noise_scale \<le> noise_scale / 2
             \<and> - noise_scale / 2 \<le> (g (draw_index sz x y + 1) - 1 / 2) * noise_scale
             \<and> (g (draw_index sz x y + 1) - 1 / 2) * noise_scale \<le> noise_scale / 2)"
proof -
  let ?u1 = "g (draw_index sz x y)" and ?u2 = "g (draw_index sz x y + 1)"
  from pixel_at_generate_Some [OF assms]
  have "pixel_value sz strength noise_scale x y ?u1 ?u2 = Inr c" by simp
  then obtain v n where v: "pre_noise_at sz strength x y = Inr v"
    and n: "normalize3 (add_noise v ?u1 ?u2 noise_scale) = Inr n"
    and c: "c = encode_rgba n"
    using pixel_value_Inr by blast
  obtain vx vy vz where vv: "v = (vx, vy, vz)" by (cases v)
  have a: "add_noise (vx, vy, vz) ?u1 ?u2 noise_scale
      = (vx + (?u1 - 1 / 2) * noise_scale, vy + (?u2 - 1 / 2) * noise_scale, vz)"
    by (rule add_noise_explicit)
  with n vv have nn: "normalize3 (vx + (?u1 - 1 / 2) * noise_scale,
      vy + (?u2 - 1 / 2) * noise_scale, vz) = Inr n"
    by simp
  have r: "unit_draws g \<and> 0 \<le> noise_scale \<longrightarrow>
               - noise_scale / 2 \<le> (?u1 - 1 / 2) * noise_scale
             \<and> (?u1 - 1 / 2) * noise_scale \<le> noise_scale / 2
             \<and> - noise_scale / 2 \<le> (?u2 - 1 / 2) * noise_scale
             \<and> (?u2 - 1 / 2) * noise_scale \<le> noise_scale / 2"
  proof
    assume h: "unit_draws g \<and> 0 \<le> noise_scale"
    then have u1: "0 \<le> ?u1" "?u1 < 1" and u2: "0 \<le> ?u2" "?u2 < 1" and ns: "0 \<le> noise_scale"
      by (simp_all add: unit_draws_def)
    from draw_range [OF u1 ns] draw_range [OF u2 ns]
    show "- noise_scale / 2 \<le> (?u1 - 1 / 2) * noise_scale
             \<and> (?u1 - 1 / 2) * noise_scale \<le> noise_scale / 2
             \<and> - noise_scale / 2 \<le> (?u2 - 1 / 2) * noise_scale
             \<and> (?u2 - 1 / 2) * noise_scale \<le> noise_scale / 2" by blast
  qed
  from v vv a nn c r show ?thesis by blast
qed

theorem noise_added_to_x_and_y_only_witness:
  "pixel_at (generate_normal_map 2 (3 / 5) (1 / 50) quarter_draws) 0 0 = Some (126, 126, 254, 255)
   \<and> unit_draws quarter_draws \<and> (0::real) \<le> 1 / 50
   \<and> (\<exists>vx vy vz n.
           pre_noise_at 2 (3 / 5) 0 0 = Inr (vx, vy, vz)
         \<and> add_noise (vx, vy, vz) (quarter_draws (draw_index 2 0 0))
               (quarter_draws (draw_index 2 0 0 + 1)) (1 / 50)
             = (vx + (quarter_draws (draw_index 2 0 0) - 1 / 2) * (1 / 50),
                vy + (quarter_draws (draw_index 2 0 0 + 1) - 1 / 2) * (1 / 50),
                vz)
         \<and> normalize3 (vx + (quarter_draws (draw_index 2 0 0) - 1 / 2) * (1 / 50),
                        vy + (quarter_draws (draw_index 2 0 0 + 1) - 1 / 2) * (1 / 50),
                        vz) = Inr n
         \<and> (126, 126, 254, 255) = encode_rgba n)
   \<and> - (1 / 50) / 2 \<le> (quarter_draws (draw_index 2 0 0) - 1 / 2) * (1 / 50)
   \<and> (quarter_draws (draw_index 2 0 0) - 1 / 2) * (1 / 50) \<le> (1 / 50) / 2
   \<and> - (1 / 50) / 2 \<le> (quarter_draws (draw_index 2 0 0 + 1) - 1 / 2) * (1 / 50)
   \<and> (quarter_draws (draw_index 2 0 0 + 1) - 1 / 2) * (1 / 50) \<le> (1 / 50) / 2"
proof -
  have h: "pixel_at (generate_normal_map 2 (3 / 5) (1 / 50) quarter_draws) 0 0
      = Some (126, 126, 254, 255)"
    by (rule noisy_corner_pixel)
  have ns: "(0::real) \<le> 1 / 50" by simp
  from noise_added_to_x_and_y_only [OF h] h unit_draws_quarter ns
  show ?thesis by blast
qed

text \<open>
  Claim C7. At a pixel of the canvas with \<open>dx = dy = 0\<close>: \<open>dist2 = 0\<close>, \<open>inner = 1\<close>,
  \<open>dz = 1\<close>, the raw vector is \<open>(0, 0, 1)\<close>, and so is the pre-noise vector; with
  \<open>noise_scale = 0\<close> the stored pixel is \<open>(127, 127, 255, 255)\<close>, the encoding of the
  flat normal \<open>(0, 0, 1)\<close>.
\<close>

theorem center_pixel_flat:
  assumes "x < nat sz" "y < nat sz"
    and "coords_at sz x y = Inr (0, 0, dist2)"
  shows "dist2 = 0
       \<and> groove_inner dist2 strength = Inr 1
       \<and> groove_dz dist2 strength = Inr 1
       \<and> raw_vector 0 0 dist2 strength = Inr (0, 0, 1)
       \<and> pre_noise_at sz strength x y = Inr (0, 0, 1)
       \<and> pixel_at (generate_normal_map sz strength 0 g) x y = Some (127, 127, 255, 255)
       \<and> encode_rgba (0, 0, 1) = (127, 127, 255, 255)"
proof -
  have d: "dist2 = 0" using assms(3) by (rule coords_zero_dist2)
  have inner: "groove_inner dist2 strength = Inr 1"
    by (simp add: d groove_inner_eq)
  have dz: "groove_dz dist2 strength = Inr 1"
    by (simp add: d groove_dz_eq)
  have raw: "raw_vector 0 0 dist2 strength = Inr (0, 0, 1)"
    by (simp add: d raw_vector_eq)
  have v: "pre_noise_at sz strength x y = Inr (0, 0, 1)"
    using assms(3) raw by (simp add: pre_noise_at_def surface_vector_def d normalize3_flat)
  then have "pixel_value sz strength 0 x y (g (draw_index sz x y)) (g (draw_index sz x y + 1))
      = Inr (127, 127, 255, 255)"
    by (rule pixel_value_flat)
  with assms(1,2) have "pixel_at (generate_normal_map sz strength 0 g) x y = Some (127, 127, 255, 255)"
    by (rule pixel_at_generate)
  with d inner dz raw v encode_flat show ?thesis by blast
qed

theorem center_pixel_flat_witness:
  "(1::nat) < nat 3 \<and> coords_at 3 1 1 = Inr (0, 0, 0)
   \<and> groove_inner 0 (3 / 5) = Inr 1
   \<and> groove_dz 0 (3 / 5) = Inr 1
   \<and> raw_vector 0 0 0 (3 / 5) = Inr (0, 0, 1)
   \<and> pre_noise_at 3 (3 / 5) 1 1 = Inr (0, 0, 1)
   \<and> pixel_at (generate_normal_map 3 (3 / 5) 0 zero_draws) 1 1 = Some (127, 127, 255, 255)
   \<and> encode_rgba (0, 0, 1) = (127, 127, 255, 255)"
proof -
  have a: "(1::nat) < nat 3" by simp
  from center_pixel_flat [OF a a coords_at_3_1_1, of "3 / 5" zero_draws] a coords_at_3_1_1
  show ?thesis by blast
qed

text \<open>
  Claim C8. Whatever the strength, the noise scale and the random draws, every pixel of a
  returned canvas has its R, G and B channels in \<open>[0, 255]\<close>, so storing them in bytes
  loses nothing; equivalently the decoded components lie in \<open>[-1, 1]\<close>.
\<close>

theorem channels_within_byte_range:
  assumes "pixel_at (generate_normal_map sz strength noise_scale g) x y = Some (r, gc, b, a)"
  shows "(0 \<le> r \<and> r \<le> 255) \<and> (0 \<le> gc \<and> gc \<le> 255) \<and> (0 \<le> b \<and> b \<le> 255)
       \<and> (- 1 \<le> decode_channel r \<and> decode_channel r \<le> 1)
       \<and> (- 1 \<le> decode_channel gc \<and> decode_channel gc \<le> 1)
       \<and> (- 1 \<le> decode_channel b \<and> decode_channel b \<le> 1)"
proof -
  from pixel_at_generate_Some [OF assms] obtain v n
    where n: "normalize3 (add_noise v (g (draw_index sz x y)) (g (draw_index sz x y + 1)) noise_scale) = Inr n"
      and c: "(r, gc, b, a) = encode_rgba n"
    using pixel_value_Inr by blast
  obtain nx ny nz where nv: "n = (nx, ny, nz)" by (cases n)
  from n nv have comp: "\<bar>nx\<bar> \<le> 1" "\<bar>ny\<bar> \<le> 1" "\<bar>nz\<bar> \<le> 1"
    using normalize3_components by blast+
  from c nv have "r = encode_channel nx" "gc = encode_channel ny" "b = encode_channel nz"
    by (simp_all add: encode_rgba_def)
  with comp have "0 \<le> r \<and> r \<le> 255" "0 \<le> gc \<and> gc \<le> 255" "0 \<le> b \<and> b \<le> 255"
    by (simp_all add: encode_channel_range)
  then show ?thesis by (simp add: decode_channel_range)
qed

theorem channels_within_byte_range_witness:
  "pixel_at (generate_normal_map 2 (3 / 5) 0 zero_draws) 0 0 = Some (127, 127, 255, 255)
   \<and> (0 \<le> (127::int) \<and> (127::int) \<le> 255) \<and> (0 \<le> (255::int) \<and> (255::int) \<le> 255)
   \<and> - 1 \<le> decode_channel 127 \<and> decode_channel 127 \<le> 1
   \<and> - 1 \<le> decode_channel 255 \<and> decode_channel 255 \<le> 1"
proof -
  have h: "pixel_at (generate_normal_map 2 (3 / 5) 0 zero_draws) 0 0 = Some (127, 127, 255, 255)"
    by (rule pixel_2_0_0)
  from channels_within_byte_range [OF h] h show ?thesis by simp
qed

text \<open>
  Claim C9 asks that every positive size gives a canvas of that width and height. At
  \<open>size = 1\<close> the centre is \<open>0\<close>, so the radius is \<open>0\<close> and the first pixel's
  \<^verbatim>\<open>(x - cx) / radius\<close> raises ZeroDivisionError: no canvas is returned.
\<close>

theorem generate_size_one_raises:
  "generate_normal_map 1 strength noise_scale g = Inl ZeroDivisionError"
  by (rule generate_one)

text \<open>
  Claim C10. At a pixel inside the disc (\<open>dist2 \<le> 1\<close>), for every strength (so for every
  clamped \<open>k\<close> in \<open>[0, 1]\<close>), the vector \<open>v\<close> before normalisation satisfies
  \<open>vlen\<^sup>2 = k\<^sup>2 * dist2 + max 0 (1 - dist2 powr 1.5 * k) \<ge> 3/4\<close>; hence
  \<open>vlen > 1e-6\<close>, the guard holds, and the first normalisation divides by \<open>vlen\<close>.
\<close>

theorem inside_disc_always_normalised:
  assumes "coords_at sz x y = Inr (dx, dy, dist2)" and "dist2 \<le> 1"
  shows "\<exists>vx vy vz.
           raw_vector dx dy dist2 strength = Inr (vx, vy, vz)
         \<and> (vec_len (vx, vy, vz))\<^sup>2
             = (clamp_strength strength)\<^sup>2 * dist2
               + max 0 (1 - dist2 powr 1.5 * clamp_strength strength)
         \<and> 3 / 4 \<le> (vec_len (vx, vy, vz))\<^sup>2
         \<and> vec_len (vx, vy, vz) > 1 / 1000000
         \<and> pre_noise_at sz strength x y
             = Inr (vx / vec_len (vx, vy, vz), vy / vec_len (vx, vy, vz), vz / vec_len (vx, vy, vz))"
proof -
  let ?k = "clamp_strength strength"
  let ?v = "(dx * ?k, dy * ?k, sqrt (max 0 (1 - dist2 powr 1.5 * ?k)))"
  have d: "dist2 = dx * dx + dy * dy"
    using assms(1) by (auto simp: coords_at_def dest: pixel_coords_dist2_nonneg)
  note r = raw_vector_len [OF d assms(2), of strength]
  have sq: "3 / 4 \<le> (vec_len ?v)\<^sup>2" using r(2) r(3) by simp
  have "(1 / 2)\<^sup>2 \<le> (vec_len ?v)\<^sup>2" using sq by (simp add: power2_eq_square)
  then have "1 / 2 \<le> vec_len ?v"
    by (rule power2_le_imp_le) (rule vec_len_nonneg)
  then have guard: "vec_len ?v > 1 / 1000000" by simp
  have "pre_noise_at sz strength x y = Inr (dx * ?k / vec_len ?v, dy * ?k / vec_len ?v,
      sqrt (max 0 (1 - dist2 powr 1.5 * ?k)) / vec_len ?v)"
    using assms guard r(1) by (simp add: pre_noise_at_def surface_vector_def normalize3_eq)
  with r(1) r(2) sq guard show ?thesis by blast
qed

theorem inside_disc_always_normalised_witness:
  "coords_at 5 3 2 = Inr (10 / 19, 0, 100 / 361) \<and> (100 / 361 :: real) \<le> 1
   \<and> (\<exists>vx vy vz.
           raw_vector (10 / 19) 0 (100 / 361) (3 / 5) = Inr (vx, vy, vz)
         \<and> (vec_len (vx, vy, vz))\<^sup>2
             = (clamp_strength (3 / 5))\<^sup>2 * (100 / 361)
               + max 0 (1 - (100 / 361) powr 1.5 * clamp_strength (3 / 5))
         \<and> 3 / 4 \<le> (vec_len (vx, vy, vz))\<^sup>2
         \<and> vec_len (vx, vy, vz) > 1 / 1000000
         \<and> pre_noise_at 5 (3 / 5) 3 2
             = Inr (vx / vec_len (vx, vy, vz), vy / vec_len (vx, vy, vz), vz / vec_len (vx, vy, vz)))"
proof -
  have a: "(100 / 361 :: real) \<le> 1" by simp
  from inside_disc_always_normalised [OF coords_at_5_3_2 a, of "3 / 5"] coords_at_5_3_2 a
  show ?thesis by blast
qed

end
